theory Spec2Isabelle
  imports Main "HOL-Library.Sublist"
begin

section \<open>Strings\<close>

text \<open>
  A JavaScript string is modelled as the list of its UTF-16 code units, a code unit being a
  natural number: \<open>length\<close> is then the source's \<open>.length\<close>. \<open>str\<close> embeds an ASCII
  literal; a character outside ASCII is written as its code unit.
\<close>

type_synonym jstring = "nat list"

definition str :: "string \<Rightarrow> jstring" where
  "str s = map of_char s"

text \<open>The regular expression class \<open>\s\<close>, which is also what \<open>trim()\<close> removes:
  white space and line terminators.\<close>

definition is_space :: "nat \<Rightarrow> bool" where
  "is_space c \<longleftrightarrow>
     c \<in> set [9, 10, 11, 12, 13, 32, 160, 5760, 8232, 8233, 8239, 8287, 12288, 65279]
     \<or> (8192 \<le> c \<and> c \<le> 8202)"

text \<open>The characters that the regular expression \<open>.\<close> does not match.\<close>

definition is_line_terminator :: "nat \<Rightarrow> bool" where
  "is_line_terminator c \<longleftrightarrow> c \<in> set [10, 13, 8232, 8233]"

definition trim :: "jstring \<Rightarrow> jstring" where
  "trim s = rev (dropWhile is_space (rev (dropWhile is_space s)))"

text \<open>\<open>s.split("\n")\<close>: never empty, the empty string gives one empty line.\<close>

fun split_nl :: "jstring \<Rightarrow> jstring list" where
  "split_nl [] = [[]]"
| "split_nl (c # cs) =
     (if c = 10 then [] # split_nl cs
      else (case split_nl cs of [] \<Rightarrow> [[c]] | l # ls \<Rightarrow> (c # l) # ls))"

text \<open>\<open>lines.join("\n")\<close>.\<close>

fun join_nl :: "jstring list \<Rightarrow> jstring" where
  "join_nl [] = []"
| "join_nl [l] = l"
| "join_nl (l # m # ls) = l @ 10 # join_nl (m # ls)"

text \<open>\<open>lines.splice(i, 0, x)\<close> for \<open>0 \<le> i\<close>: an index past the end appends.\<close>

definition splice_in :: "nat \<Rightarrow> 'a \<Rightarrow> 'a list \<Rightarrow> 'a list" where
  "splice_in i x xs = take i xs @ x # drop i xs"

text \<open>\<open>String(n)\<close> for an integer and \<open>padStart(n, "0")\<close>.\<close>

fun digits :: "nat \<Rightarrow> jstring" where
  "digits n = (if n < 10 then [48 + n] else digits (n div 10) @ [48 + n mod 10])"

definition String_of_int :: "int \<Rightarrow> jstring" where
  "String_of_int i = (if i < 0 then 45 # digits (nat (- i)) else digits (nat i))"

definition padStart :: "nat \<Rightarrow> nat \<Rightarrow> jstring \<Rightarrow> jstring" where
  "padStart n c s = replicate (n - length s) c @ s"

subsection \<open>Replacement with a replacement string\<close>

text \<open>
  \<open>String.prototype.replace\<close> expands the replacement string at each match
  (GetSubstitution): \<open>$$\<close> is a dollar sign, \<open>$&\<close> the matched text, \<open>$`\<close> the text
  before the match and \<open>$'\<close> the text after it. The patterns of this program have no
  capture group, so \<open>$1\<close> and the like stay as they are.
\<close>

fun get_substitution :: "jstring \<Rightarrow> jstring \<Rightarrow> jstring \<Rightarrow> jstring \<Rightarrow> jstring" where
  "get_substitution matched preceding following [] = []"
| "get_substitution matched preceding following [c] = [c]"
| "get_substitution matched preceding following (c # d # r) =
     (if c = 36 \<and> d = 36 then 36 # get_substitution matched preceding following r
      else if c = 36 \<and> d = 38 then matched @ get_substitution matched preceding following r
      else if c = 36 \<and> d = 96 then preceding @ get_substitution matched preceding following r
      else if c = 36 \<and> d = 39 then following @ get_substitution matched preceding following r
      else c # get_substitution matched preceding following (d # r))"

text \<open>\<open>s.indexOf(pat)\<close>, with \<open>None\<close> for -1.\<close>

fun index_of :: "jstring \<Rightarrow> jstring \<Rightarrow> nat option" where
  "index_of pat [] = (if pat = [] then Some 0 else None)"
| "index_of pat (c # cs) =
     (if prefix pat (c # cs) then Some 0 else map_option Suc (index_of pat cs))"

text \<open>\<open>s.replace(pat, rep)\<close> with a string pattern: the first occurrence only.\<close>

definition replace_first :: "jstring \<Rightarrow> jstring \<Rightarrow> jstring \<Rightarrow> jstring" where
  "replace_first pat rep s =
     (case index_of pat s of
        None \<Rightarrow> s
      | Some i \<Rightarrow>
          take i s
          @ get_substitution pat (take i s) (drop (i + length pat) s) rep
          @ drop (i + length pat) s)"

text \<open>\<open>s.replace(/pat/g, rep)\<close> for a pattern that is a non-empty literal: every
  occurrence, left to right, without overlap. \<open>seen\<close> is the text already passed.\<close>

function replace_all_from :: "jstring \<Rightarrow> jstring \<Rightarrow> jstring \<Rightarrow> jstring \<Rightarrow> jstring" where
  "replace_all_from pat rep seen s =
     (if pat \<noteq> [] \<and> prefix pat s then
        get_substitution pat seen (drop (length pat) s) rep
        @ replace_all_from pat rep (seen @ pat) (drop (length pat) s)
      else (case s of
              [] \<Rightarrow> []
            | c # cs \<Rightarrow> c # replace_all_from pat rep (seen @ [c]) cs))"
  by pat_completeness auto
termination
  by (relation "measure (\<lambda>(pat, rep, seen, s). length s)") (auto simp: prefix_def)

definition replace_all :: "jstring \<Rightarrow> jstring \<Rightarrow> jstring \<Rightarrow> jstring" where
  "replace_all pat rep s = replace_all_from pat rep [] s"

section \<open>Dates\<close>

text \<open>
  The functions of the daily note read a \<open>Date\<close> through its local calendar fields only,
  so a date is modelled as the number of its local calendar day, counted from 1 January
  1970. The fields are computed from the day number with the proleptic Gregorian
  calendar; \<open>setDate(getDate() - 1)\<close> is the day before.
\<close>

type_synonym date = int

definition civil :: "date \<Rightarrow> int \<times> int \<times> int" where
  "civil d =
     (let z = d + 719468;
          era = z div 146097;
          doe = z mod 146097;
          yoe = (doe - doe div 1460 + doe div 36524 - doe div 146096) div 365;
          doy = doe - (365 * yoe + yoe div 4 - yoe div 100);
          mp = (5 * doy + 2) div 153;
          dd = doy - (153 * mp + 2) div 5 + 1;
          mm = (if mp < 10 then mp + 3 else mp - 9);
          yy = yoe + era * 400 + (if mm \<le> 2 then 1 else 0)
      in (yy, mm, dd))"

definition getFullYear :: "date \<Rightarrow> int" where
  "getFullYear d = fst (civil d)"

definition getMonth :: "date \<Rightarrow> int" where
  "getMonth d = fst (snd (civil d)) - 1"

definition getDate :: "date \<Rightarrow> int" where
  "getDate d = snd (snd (civil d))"

definition getDay :: "date \<Rightarrow> int" where
  "getDay d = (d + 4) mod 7"

definition DAYS :: "jstring list" where
  "DAYS = map str [''Sunday'', ''Monday'', ''Tuesday'', ''Wednesday'', ''Thursday'',
     ''Friday'', ''Saturday'']"

definition MONTHS :: "jstring list" where
  "MONTHS = map str [''January'', ''February'', ''March'', ''April'', ''May'', ''June'',
     ''July'', ''August'', ''September'', ''October'', ''November'', ''December'']"

text \<open>An array read inside a template literal: out of range it prints \<open>undefined\<close>.\<close>

definition at_or_undefined :: "jstring list \<Rightarrow> int \<Rightarrow> jstring" where
  "at_or_undefined xs i =
     (if 0 \<le> i \<and> i < int (length xs) then xs ! nat i else str ''undefined'')"

definition formatDate :: "date \<Rightarrow> jstring" where
  "formatDate d =
     String_of_int (getFullYear d) @ str ''-''
     @ padStart 2 48 (String_of_int (getMonth d + 1)) @ str ''-''
     @ padStart 2 48 (String_of_int (getDate d))"

definition fullDate :: "date \<Rightarrow> jstring" where
  "fullDate d =
     at_or_undefined MONTHS (getMonth d) @ str '' '' @ String_of_int (getDate d)
     @ str '', '' @ String_of_int (getFullYear d)"

definition dayName :: "date \<Rightarrow> jstring" where
  "dayName d = at_or_undefined DAYS (getDay d)"

section \<open>The vault\<close>

text \<open>
  The state is the part of the file system the daily note functions touch: the files of
  the daily directory, by file name, and the file \<open>templates/daily.md\<close> when it is
  installed. \<open>ensureDirs\<close> only creates directories and is not part of the state.
\<close>

record vault =
  daily_dir :: "jstring \<rightharpoonup> jstring"
  daily_template :: "jstring option"

datatype error = ENOENT jstring

definition existsSync :: "vault \<Rightarrow> jstring \<Rightarrow> bool" where
  "existsSync v path \<longleftrightarrow> daily_dir v path \<noteq> None"

definition readFileSync :: "vault \<Rightarrow> jstring \<Rightarrow> error + jstring" where
  "readFileSync v path =
     (case daily_dir v path of None \<Rightarrow> Inl (ENOENT path) | Some c \<Rightarrow> Inr c)"

definition writeFileSync :: "vault \<Rightarrow> jstring \<Rightarrow> jstring \<Rightarrow> vault" where
  "writeFileSync v path content = v\<lparr>daily_dir := (daily_dir v)(path \<mapsto> content)\<rparr>"

definition dailyPath :: "date \<Rightarrow> jstring" where
  "dailyPath d = formatDate d @ str ''.md''"

section \<open>Checklist lines\<close>

text \<open>
  The regular expressions \<open>/^-\s+\[\s\]\s+(.+)/\<close> and \<open>/^-\s+\[x\]\s+(.+)/i\<close> differ in
  the mark between the brackets only. \<open>checklist_match mark line\<close> is the capture group
  of a match, \<open>None\<close> when the line does not match.

  The first \<open>\s+\<close> takes the whole run of white space after the dash: with less, the next
  character would be white space and not the bracket. The last \<open>\s+\<close> is greedy and gives
  characters back one at a time, keeping at least one, until \<open>(.+)\<close> finds a character that is
  not a line terminator; \<open>(.+)\<close> then runs to the next line terminator.
  \<open>capture_from r p\<close> tries the capture at offsets \<open>p\<close>, \<open>p - 1\<close>, ..., 1 of \<open>r\<close>.
\<close>

fun capture_from :: "jstring \<Rightarrow> nat \<Rightarrow> jstring option" where
  "capture_from r 0 = None"
| "capture_from r (Suc p) =
     (let body = takeWhile (\<lambda>c. \<not> is_line_terminator c) (drop (Suc p) r)
      in if body \<noteq> [] then Some body else capture_from r p)"

definition checklist_match :: "(nat \<Rightarrow> bool) \<Rightarrow> jstring \<Rightarrow> jstring option" where
  "checklist_match mark line =
     (case line of
        [] \<Rightarrow> None
      | c # r0 \<Rightarrow>
          if c \<noteq> 45 \<or> takeWhile is_space r0 = [] then None
          else (case dropWhile is_space r0 of
                  a # m # b # r \<Rightarrow>
                    if a = 91 \<and> mark m \<and> b = 93
                    then capture_from r (length (takeWhile is_space r))
                    else None
                | _ \<Rightarrow> None))"

definition todoMatch :: "jstring \<Rightarrow> jstring option" where
  "todoMatch line = checklist_match is_space line"

definition doneMatch :: "jstring \<Rightarrow> jstring option" where
  "doneMatch line = checklist_match (\<lambda>c. c = 120 \<or> c = 88) line"

text \<open>
  \<open>s.replace(/\s*\*\(rolled over\)\*\s*$/, "")\<close>: the match is the leftmost suffix of \<open>s\<close>
  made of white space, the marker and white space.
\<close>

definition rolled_marker :: jstring where
  "rolled_marker = str ''*(rolled over)*''"

definition is_marker_tail :: "jstring \<Rightarrow> bool" where
  "is_marker_tail t \<longleftrightarrow>
     (let u = dropWhile is_space t
      in prefix rolled_marker u \<and> list_all is_space (drop (length rolled_marker) u))"

fun strip_rolled :: "jstring \<Rightarrow> jstring" where
  "strip_rolled [] = []"
| "strip_rolled (c # cs) = (if is_marker_tail (c # cs) then [] else c # strip_rolled cs)"

section \<open>Daily notes\<close>

text \<open>\<open>extractIncompletePriorities\<close>: the loop over the lines, with its flag and its result.\<close>

fun incomplete_loop :: "bool \<Rightarrow> jstring list \<Rightarrow> jstring list \<Rightarrow> jstring list" where
  "incomplete_loop inPriorities priorities [] = priorities"
| "incomplete_loop inPriorities priorities (line # rest) =
     (if prefix (str ''## Priorities'') line then incomplete_loop True priorities rest
      else if inPriorities \<and> prefix (str ''## '') line then priorities
      else if inPriorities then
        (case todoMatch line of
           Some m \<Rightarrow>
             if trim m \<noteq> []
             then incomplete_loop inPriorities (priorities @ [strip_rolled m]) rest
             else incomplete_loop inPriorities priorities rest
         | None \<Rightarrow> incomplete_loop inPriorities priorities rest)
      else incomplete_loop inPriorities priorities rest)"

definition extractIncompletePriorities :: "jstring \<Rightarrow> jstring list" where
  "extractIncompletePriorities content = incomplete_loop False [] (split_nl content)"

definition skeleton :: "date \<Rightarrow> jstring" where
  "skeleton d =
     str ''---\<newline>date: '' @ formatDate d @ str ''\<newline>---\<newline># '' @ dayName d @ str '', ''
     @ fullDate d
     @ str ''\<newline>\<newline>## Priorities\<newline>- [ ] \<newline>\<newline>## Log\<newline>\<newline>## Notes\<newline>\<newline>## Decisions\<newline>\<newline>## Learned\<newline>''"

definition instantiate :: "jstring \<Rightarrow> date \<Rightarrow> jstring" where
  "instantiate t d =
     replace_all (str ''{{FULL_DATE}}'') (fullDate d)
       (replace_all (str ''{{DAY_NAME}}'') (dayName d)
         (replace_all (str ''{{DATE}}'') (formatDate d) t))"

definition rolled_line :: "jstring \<Rightarrow> jstring" where
  "rolled_line p = str ''- [ ] '' @ p @ str '' *(rolled over)*''"

definition placeholder :: jstring where
  "placeholder = str ''- [ ] \<newline>''"

definition rollover :: "jstring list \<Rightarrow> jstring \<Rightarrow> jstring" where
  "rollover incomplete content =
     (if incomplete \<noteq> [] then
        replace_first placeholder
          (join_nl (map rolled_line incomplete) @ str ''\<newline>- [ ] \<newline>'') content
      else content)"

definition ensureDailyNote :: "vault \<Rightarrow> date \<Rightarrow> error + jstring \<times> vault" where
  "ensureDailyNote v d =
     (let path = dailyPath d in
      if existsSync v path then Inr (path, v)
      else
        let content = (case daily_template v of
                         Some t \<Rightarrow> instantiate t d
                       | None \<Rightarrow> skeleton d);
            yesterdayPath = dailyPath (d - 1)
        in if existsSync v yesterdayPath then
             (case readFileSync v yesterdayPath of
                Inl e \<Rightarrow> Inl e
              | Inr yesterdayContent \<Rightarrow>
                  Inr (path, writeFileSync v path
                         (rollover (extractIncompletePriorities yesterdayContent) content)))
           else Inr (path, writeFileSync v path content))"

subsection \<open>Appending\<close>

text \<open>
  The inner loop of \<open>appendToLog\<close> and \<open>appendToSection\<close>, from the line after the header:
  the number of lines it skips. \<open>header\<close> is \<open>## Log\<close> or \<open>## \<close> followed by the section.
\<close>

fun skip_count :: "jstring \<Rightarrow> jstring list \<Rightarrow> nat" where
  "skip_count header [] = 0"
| "skip_count header (ln # rest) =
     (if prefix (str ''## '') ln \<and> \<not> prefix header ln then 0
      else if prefix (str ''<!-- '') ln then Suc (skip_count header rest)
      else if trim ln = [] then Suc (skip_count header rest)
      else 0)"

text \<open>The outer loop: the insertion index, \<open>None\<close> for the source's -1.\<close>

fun find_insert :: "jstring \<Rightarrow> jstring list \<Rightarrow> nat option" where
  "find_insert header [] = None"
| "find_insert header (l # ls) =
     (if prefix header l then Some (Suc (skip_count header ls))
      else map_option Suc (find_insert header ls))"

text \<open>The wall clock read by \<open>appendToLog\<close>.\<close>

record clock =
  getHours :: nat
  getMinutes :: nat

text \<open>
  The entry of the log. Between the two spaces the template literal of the source holds
  three characters, U+00E2, U+20AC and U+201D (the code units 226, 8364 and 8221): the
  bytes of an em dash read in a one-byte encoding.
\<close>

definition logEntry :: "clock \<Rightarrow> jstring \<Rightarrow> jstring" where
  "logEntry now entry =
     str ''- '' @ padStart 2 48 (digits (getHours now)) @ str '':''
     @ padStart 2 48 (digits (getMinutes now)) @ [32, 226, 8364, 8221, 32] @ entry"

definition appendToLog :: "vault \<Rightarrow> clock \<Rightarrow> jstring \<Rightarrow> date \<Rightarrow> error + vault" where
  "appendToLog v now entry d =
     (case ensureDailyNote v d of
        Inl e \<Rightarrow> Inl e
      | Inr (path, v1) \<Rightarrow>
          (case readFileSync v1 path of
             Inl e \<Rightarrow> Inl e
           | Inr content \<Rightarrow>
               (case find_insert (str ''## Log'') (split_nl content) of
                  None \<Rightarrow>
                    Inr (writeFileSync v1 path
                           (content @ str ''\<newline>'' @ logEntry now entry @ str ''\<newline>''))
                | Some insertIndex \<Rightarrow>
                    Inr (writeFileSync v1 path
                           (join_nl (splice_in insertIndex (logEntry now entry)
                                       (split_nl content)))))))"

definition appendToSection :: "vault \<Rightarrow> jstring \<Rightarrow> jstring \<Rightarrow> date \<Rightarrow> error + vault" where
  "appendToSection v section content d =
     (case ensureDailyNote v d of
        Inl e \<Rightarrow> Inl e
      | Inr (path, v1) \<Rightarrow>
          (case readFileSync v1 path of
             Inl e \<Rightarrow> Inl e
           | Inr fileContent \<Rightarrow>
               (case find_insert (str ''## '' @ section) (split_nl fileContent) of
                  None \<Rightarrow> Inr v1
                | Some insertIndex \<Rightarrow>
                    Inr (writeFileSync v1 path
                           (join_nl (splice_in insertIndex content
                                       (split_nl fileContent)))))))"

subsection \<open>Reading the priorities\<close>

text \<open>The fields \<open>text\<close> and \<open>done\<close> of an item.\<close>

record priority =
  item_text :: jstring
  item_done :: bool

fun priorities_loop :: "bool \<Rightarrow> priority list \<Rightarrow> jstring list \<Rightarrow> priority list" where
  "priorities_loop inPriorities priorities [] = priorities"
| "priorities_loop inPriorities priorities (line # rest) =
     (if prefix (str ''## Priorities'') line then priorities_loop True priorities rest
      else if inPriorities \<and> prefix (str ''## '') line then priorities
      else if inPriorities then
        (case doneMatch line of
           Some m \<Rightarrow>
             priorities_loop inPriorities (priorities @ [\<lparr>item_text = m, item_done = True\<rparr>]) rest
         | None \<Rightarrow>
             (case todoMatch line of
                Some m \<Rightarrow>
                  if trim m \<noteq> []
                  then priorities_loop inPriorities
                         (priorities @ [\<lparr>item_text = m, item_done = False\<rparr>]) rest
                  else priorities_loop inPriorities priorities rest
              | None \<Rightarrow> priorities_loop inPriorities priorities rest))
      else priorities_loop inPriorities priorities rest)"

definition readDailyNote :: "vault \<Rightarrow> date \<Rightarrow> error + jstring \<times> vault" where
  "readDailyNote v d =
     (case ensureDailyNote v d of
        Inl e \<Rightarrow> Inl e
      | Inr (path, v1) \<Rightarrow>
          (case readFileSync v1 path of Inl e \<Rightarrow> Inl e | Inr c \<Rightarrow> Inr (c, v1)))"

definition getPriorities :: "vault \<Rightarrow> date \<Rightarrow> error + priority list \<times> vault" where
  "getPriorities v d =
     (case readDailyNote v d of
        Inl e \<Rightarrow> Inl e
      | Inr (content, v1) \<Rightarrow> Inr (priorities_loop False [] (split_nl content), v1))"

section \<open>Light extraction\<close>

text \<open>
  The five regular expressions of \<open>lightExtract\<close> are only tested, never read for a
  capture, so each is modelled by the finite list of the atom sequences it accepts: an
  atom is a literal code unit or the class \<open>\s\<close>. \<open>lit\<close>, \<open>alt\<close>, \<open>seq\<close> and
  \<open>opt\<close> follow the shape of the source expression.
\<close>

datatype atom = Lit nat | Space

definition lit :: "string \<Rightarrow> atom list list" where
  "lit s = [map Lit (str s)]"

definition alt :: "atom list list list \<Rightarrow> atom list list" where
  "alt rs = concat rs"

definition seq :: "atom list list \<Rightarrow> atom list list \<Rightarrow> atom list list" where
  "seq r1 r2 = concat (map (\<lambda>a. map (\<lambda>b. a @ b) r2) r1)"

definition opt :: "atom list list \<Rightarrow> atom list list" where
  "opt r = r @ [[]]"

text \<open>Case folding of the flag \<open>i\<close>; the expressions hold ASCII letters only, and no
  code unit outside ASCII folds to an ASCII one.\<close>

definition fold_case :: "nat \<Rightarrow> nat" where
  "fold_case c = (if 97 \<le> c \<and> c \<le> 122 then c - 32 else c)"

fun atom_matches :: "bool \<Rightarrow> atom \<Rightarrow> nat \<Rightarrow> bool" where
  "atom_matches ignoreCase (Lit p) c =
     (if ignoreCase then fold_case p = fold_case c else p = c)"
| "atom_matches ignoreCase Space c = is_space c"

fun matches_at :: "bool \<Rightarrow> atom list \<Rightarrow> jstring \<Rightarrow> bool" where
  "matches_at ignoreCase [] s = True"
| "matches_at ignoreCase (a # as) [] = False"
| "matches_at ignoreCase (a # as) (c # cs) =
     (atom_matches ignoreCase a c \<and> matches_at ignoreCase as cs)"

text \<open>The class \<open>\w\<close> and the assertion \<open>\b\<close> at offset \<open>i\<close> of \<open>s\<close>.\<close>

definition is_word_char :: "nat \<Rightarrow> bool" where
  "is_word_char c \<longleftrightarrow>
     (48 \<le> c \<and> c \<le> 57) \<or> (65 \<le> c \<and> c \<le> 90) \<or> c = 95 \<or> (97 \<le> c \<and> c \<le> 122)"

definition word_boundary :: "jstring \<Rightarrow> nat \<Rightarrow> bool" where
  "word_boundary s i \<longleftrightarrow>
     (0 < i \<and> i \<le> length s \<and> is_word_char (s ! (i - 1)))
     \<noteq> (i < length s \<and> is_word_char (s ! i))"

text \<open>\<open>/\b(r)\b/i.test(s)\<close>: some offset of \<open>s\<close> is a word boundary, a sequence of \<open>r\<close>
  matches there, and its end is a word boundary.\<close>

definition test_words :: "atom list list \<Rightarrow> jstring \<Rightarrow> bool" where
  "test_words r s \<longleftrightarrow>
     list_ex (\<lambda>i. word_boundary s i
                \<and> list_ex (\<lambda>w. matches_at True w (drop i s)
                              \<and> word_boundary s (i + length w)) r)
       [0..<Suc (length s)]"

definition decision_rx :: "atom list list" where
  "decision_rx =
     alt [lit ''decided'', lit ''going with'',
          seq (lit ''let's '') (alt [lit ''go with'', lit ''use'', lit ''do'']),
          seq (lit ''we'') (seq (alt [lit '''ll'', lit '' will''])
            (seq (lit '' '') (alt [lit ''use'', lit ''go''])))]"

definition solution_rx :: "atom list list" where
  "solution_rx =
     alt [seq (lit ''fix'') (opt (lit ''ed'')),
          seq (lit ''solv'') (alt [lit ''ed'', lit ''e'']),
          seq (lit ''resolv'') (alt [lit ''ed'', lit ''e'']),
          seq (lit ''the '') (seq (alt [lit ''issue'', lit ''problem'', lit ''error''])
            (lit '' was'')),
          lit ''workaround'']"

definition learning_rx :: "atom list list" where
  "learning_rx =
     alt [lit ''turns out'', lit ''TIL'', lit ''learned'', lit ''discovered'',
          seq (lit ''important'') (seq (opt (lit ''ly'')) (seq (opt (lit '':'')) [[Space]])),
          seq (lit ''note'') (seq (opt (lit '':'')) [[Space]]),
          seq (lit ''key '') (alt [lit ''insight'', lit ''takeaway''])]"

definition todo_rx :: "atom list list" where
  "todo_rx =
     alt [lit ''TODO'', lit ''FIXME'', lit ''need to'',
          seq (lit ''should '') (opt (lit ''also '')),
          lit ''remember to'', lit ''don't forget'']"

text \<open>
  \<open>/^\$?\s*(npm |yarn |...)/.test(t)\<close>, without the flag \<open>i\<close>: an optional dollar sign,
  white space, then one of the tool names with its space.
\<close>

definition command_tools :: "jstring list" where
  "command_tools = map str [''npm '', ''yarn '', ''pnpm '', ''brew '', ''go '', ''cargo '',
     ''pip '', ''terraform '', ''aws '', ''gcloud '', ''kubectl '', ''docker '', ''git '']"

definition command_test :: "jstring \<Rightarrow> bool" where
  "command_test t \<longleftrightarrow>
     (let u = (case t of [] \<Rightarrow> [] | c # r \<Rightarrow> if c = 36 then r else t)
      in list_ex (\<lambda>tool. prefix tool (dropWhile is_space u)) command_tools)"

text \<open>The test for three backquotes at the start of \<open>t\<close>; the backquote is the code
  unit 96.\<close>

definition fence_test :: "jstring \<Rightarrow> bool" where
  "fence_test t \<longleftrightarrow> prefix [96, 96, 96] t"

record ExtractedKnowledge =
  decisions :: "jstring list"
  solutions :: "jstring list"
  learnings :: "jstring list"
  todos :: "jstring list"
  commands :: "jstring list"
  projectContext :: "jstring option"

text \<open>
  A message's \<open>content\<close> is of type \<open>unknown\<close>: a string, an array, or anything else.
  An element of the array is an object with optional fields \<open>type\<close> and \<open>text\<close>, or a value
  that is no object.
\<close>

datatype content_block = Block (block_type: "jstring option") (block_text: "jstring option")
  | NotObject

datatype content = Str jstring | Blocks "content_block list" | Other

record message =
  role :: "jstring option"
  content :: content

record SessionEntry =
  entry_type :: jstring
  entry_message :: "message option"


fun is_text_block :: "content_block \<Rightarrow> bool" where
  "is_text_block (Block t x) = (t = Some (str ''text''))"
| "is_text_block NotObject = False"

fun text_or_empty :: "content_block \<Rightarrow> jstring" where
  "text_or_empty (Block t x) = (case x of Some s \<Rightarrow> s | None \<Rightarrow> [])"
| "text_or_empty NotObject = []"

fun extractText :: "content \<Rightarrow> jstring" where
  "extractText (Str s) = s"
| "extractText (Blocks bs) = join_nl (map text_or_empty (filter is_text_block bs))"
| "extractText Other = []"

text \<open>The body of the loop over the lines: the five tests, each pushing the trimmed
  line.\<close>

definition scan_line :: "jstring option \<Rightarrow> ExtractedKnowledge \<Rightarrow> jstring \<Rightarrow> ExtractedKnowledge" where
  "scan_line r result line =
     (let result1 =
            (if test_words decision_rx line \<and> length line > 15 \<and> length line < 300
             then result\<lparr>decisions := decisions result @ [trim line]\<rparr> else result);
          result2 =
            (if test_words solution_rx line \<and> length line > 15 \<and> length line < 300
             then result1\<lparr>solutions := solutions result1 @ [trim line]\<rparr> else result1);
          result3 =
            (if test_words learning_rx line \<and> length line > 10 \<and> length line < 300
             then result2\<lparr>learnings := learnings result2 @ [trim line]\<rparr> else result2);
          result4 =
            (if test_words todo_rx line \<and> length line > 10 \<and> length line < 200
             then result3\<lparr>todos := todos result3 @ [trim line]\<rparr> else result3)
      in if r = Some (str ''assistant'') \<and> \<not> fence_test (trim line)
            \<and> command_test (trim line) \<and> length line < 200
         then result4\<lparr>commands := commands result4 @ [trim line]\<rparr> else result4)"

definition scan_entry :: "ExtractedKnowledge \<Rightarrow> SessionEntry \<Rightarrow> ExtractedKnowledge" where
  "scan_entry result entry =
     (case entry_message entry of
        None \<Rightarrow> result
      | Some m \<Rightarrow>
          if entry_type entry \<noteq> str ''message'' then result
          else if extractText (content m) = [] then result
          else foldl (scan_line (role m)) result (split_nl (extractText (content m))))"

text \<open>The array of a \<open>Set\<close> built from \<open>xs\<close>: the first occurrence of each element, in
  order.\<close>

definition dedupe :: "'a list \<Rightarrow> 'a list" where
  "dedupe xs = foldl (\<lambda>acc x. if x \<in> set acc then acc else acc @ [x]) [] xs"

text \<open>\<open>detectProject(cwd)\<close> reads the project notes; its result is a parameter here.\<close>

definition lightExtract :: "SessionEntry list \<Rightarrow> jstring option \<Rightarrow> ExtractedKnowledge" where
  "lightExtract entries detected =
     (let result = foldl scan_entry
            \<lparr>decisions = [], solutions = [], learnings = [], todos = [], commands = [],
             projectContext = detected\<rparr> entries
      in result\<lparr>decisions := take 5 (dedupe (decisions result)),
                solutions := take 5 (dedupe (solutions result)),
                learnings := take 5 (dedupe (learnings result)),
                todos := take 5 (dedupe (todos result)),
                commands := take 5 (dedupe (commands result))\<rparr>)"

subsection \<open>Writing the light extraction\<close>





section \<open>Deep extraction: parsing the response\<close>

subsection \<open>\<open>JSON.parse\<close>\<close>

text \<open>
  A JSON value. A number keeps the text it was written with, an object the members as
  they were written, in order.
\<close>

datatype json = JNull | JBool bool | JNumber jstring | JString jstring
  | JArray "json list" | JObject "(jstring \<times> json) list"

definition is_json_ws :: "nat \<Rightarrow> bool" where
  "is_json_ws c \<longleftrightarrow> c \<in> set [9, 10, 13, 32]"

definition skip_ws :: "jstring \<Rightarrow> jstring" where
  "skip_ws s = dropWhile is_json_ws s"

definition is_digit :: "nat \<Rightarrow> bool" where
  "is_digit c \<longleftrightarrow> 48 \<le> c \<and> c \<le> 57"

definition hex_value :: "nat \<Rightarrow> nat option" where
  "hex_value c =
     (if 48 \<le> c \<and> c \<le> 57 then Some (c - 48)
      else if 65 \<le> c \<and> c \<le> 70 then Some (c - 55)
      else if 97 \<le> c \<and> c \<le> 102 then Some (c - 87)
      else None)"

text \<open>The characters of a string after its opening quote, up to the closing one.\<close>

fun parse_chars :: "jstring \<Rightarrow> jstring \<Rightarrow> (jstring \<times> jstring) option" where
  "parse_chars acc [] = None"
| "parse_chars acc [c] = (if c = 34 then Some (acc, []) else None)"
| "parse_chars acc (c # e # r) =
     (if c = 34 then Some (acc, e # r)
      else if c < 32 then None
      else if c \<noteq> 92 then parse_chars (acc @ [c]) (e # r)
      else if e = 34 \<or> e = 92 \<or> e = 47 then parse_chars (acc @ [e]) r
      else if e = 98 then parse_chars (acc @ [8]) r
      else if e = 102 then parse_chars (acc @ [12]) r
      else if e = 110 then parse_chars (acc @ [10]) r
      else if e = 114 then parse_chars (acc @ [13]) r
      else if e = 116 then parse_chars (acc @ [9]) r
      else if e = 117 then
        (case r of
           h1 # h2 # h3 # h4 # r' \<Rightarrow>
             (case (hex_value h1, hex_value h2, hex_value h3, hex_value h4) of
                (Some a, Some b, Some c', Some d) \<Rightarrow>
                  parse_chars (acc @ [((a * 16 + b) * 16 + c') * 16 + d]) r'
              | _ \<Rightarrow> None)
         | _ \<Rightarrow> None)
      else None)"

text \<open>A number: \<open>-?(0|[1-9][0-9]*)(\.[0-9]+)?([eE][+-]?[0-9]+)?\<close>.\<close>

definition parse_number :: "jstring \<Rightarrow> (jstring \<times> jstring) option" where
  "parse_number s =
     (let sign = (if prefix [45] s then [45] else []);
          s1 = drop (length sign) s;
          ds = takeWhile is_digit s1;
          int_part = (if prefix [48] ds then [48] else ds);
          s2 = drop (length int_part) s1;
          frac = (case s2 of
                    c # r \<Rightarrow> if c = 46 then c # takeWhile is_digit r else []
                  | [] \<Rightarrow> []);
          s3 = drop (length frac) s2;
          expo = (case s3 of
                    c # r \<Rightarrow>
                      if c = 101 \<or> c = 69 then
                        (case r of
                           g # r' \<Rightarrow>
                             if g = 43 \<or> g = 45 then c # g # takeWhile is_digit r'
                             else c # takeWhile is_digit r
                         | [] \<Rightarrow> [c])
                      else []
                  | [] \<Rightarrow> []);
          s4 = drop (length expo) s3
      in if int_part = [] \<or> length frac = 1 then None
         else if expo \<noteq> [] \<and> \<not> is_digit (last expo) then None
         else Some (sign @ int_part @ frac @ expo, s4))"

text \<open>
  The values, by recursive descent. \<open>n\<close> bounds the number of nested calls; every two
  calls read a character, so twice the length of the text is enough.
\<close>

fun parse_value :: "nat \<Rightarrow> jstring \<Rightarrow> (json \<times> jstring) option"
  and parse_elements :: "nat \<Rightarrow> json list \<Rightarrow> jstring \<Rightarrow> (json list \<times> jstring) option"
  and parse_members ::
    "nat \<Rightarrow> (jstring \<times> json) list \<Rightarrow> jstring \<Rightarrow> ((jstring \<times> json) list \<times> jstring) option"
where
  "parse_value n s =
     (if n = 0 then None
      else (case skip_ws s of
              [] \<Rightarrow> None
            | c # r \<Rightarrow>
                if c = 123 then
                  (case skip_ws r of
                     [] \<Rightarrow> None
                   | c' # r' \<Rightarrow>
                       if c' = 125 then Some (JObject [], r')
                       else map_option (\<lambda>(ms, t). (JObject ms, t)) (parse_members (n - 1) [] r))
                else if c = 91 then
                  (case skip_ws r of
                     [] \<Rightarrow> None
                   | c' # r' \<Rightarrow>
                       if c' = 93 then Some (JArray [], r')
                       else map_option (\<lambda>(vs, t). (JArray vs, t)) (parse_elements (n - 1) [] r))
                else if c = 34 then map_option (\<lambda>(x, t). (JString x, t)) (parse_chars [] r)
                else if prefix (str ''true'') (c # r) then Some (JBool True, drop 3 r)
                else if prefix (str ''false'') (c # r) then Some (JBool False, drop 4 r)
                else if prefix (str ''null'') (c # r) then Some (JNull, drop 3 r)
                else map_option (\<lambda>(x, t). (JNumber x, t)) (parse_number (c # r))))"
| "parse_elements n acc s =
     (if n = 0 then None
      else (case parse_value (n - 1) s of
              None \<Rightarrow> None
            | Some (v, r) \<Rightarrow>
                (case skip_ws r of
                   [] \<Rightarrow> None
                 | c # r' \<Rightarrow>
                     if c = 44 then parse_elements (n - 1) (acc @ [v]) r'
                     else if c = 93 then Some (acc @ [v], r')
                     else None)))"
| "parse_members n acc s =
     (if n = 0 then None
      else (case skip_ws s of
              [] \<Rightarrow> None
            | q # r \<Rightarrow>
                if q \<noteq> 34 then None
                else (case parse_chars [] r of
                        None \<Rightarrow> None
                      | Some (k, r1) \<Rightarrow>
                          (case skip_ws r1 of
                             [] \<Rightarrow> None
                           | c # r2 \<Rightarrow>
                               if c \<noteq> 58 then None
                               else (case parse_value (n - 1) r2 of
                                       None \<Rightarrow> None
                                     | Some (v, r3) \<Rightarrow>
                                         (case skip_ws r3 of
                                            [] \<Rightarrow> None
                                          | c' # r4 \<Rightarrow>
                                              if c' = 44
                                              then parse_members (n - 1) (acc @ [(k, v)]) r4
                                              else if c' = 125 then Some (acc @ [(k, v)], r4)
                                              else None))))))"

text \<open>\<open>JSON.parse(text)\<close>: \<open>None\<close> stands for the \<open>SyntaxError\<close> it throws.\<close>

definition JSON_parse :: "jstring \<Rightarrow> json option" where
  "JSON_parse s =
     (case parse_value (2 * length s + 2) s of
        None \<Rightarrow> None
      | Some (v, r) \<Rightarrow> if skip_ws r = [] then Some v else None)"

subsection \<open>The fences\<close>

text \<open>
  The first replacement of \<open>parseDeepExtraction\<close>, by the expression
  \<open>^ three backquotes json? \n?\<close> with the flag \<open>m\<close>, removes the first place at the
  start of a line where three backquotes and \<open>jso\<close> stand; an \<open>n\<close> and a line feed after
  them belong to the match. \<open>at_start\<close> says whether the scan is at the start of a line.
\<close>

definition fence_jso :: jstring where
  "fence_jso = [96, 96, 96] @ str ''jso''"

fun strip_opening_fence :: "bool \<Rightarrow> jstring \<Rightarrow> jstring" where
  "strip_opening_fence at_start [] = []"
| "strip_opening_fence at_start (c # cs) =
     (if at_start \<and> prefix fence_jso (c # cs) then
        (let r = drop (length fence_jso) (c # cs);
             r1 = (case r of [] \<Rightarrow> r | x # t \<Rightarrow> if x = 110 then t else r)
         in (case r1 of [] \<Rightarrow> r1 | x # t \<Rightarrow> if x = 10 then t else r1))
      else c # strip_opening_fence (is_line_terminator c) cs)"

text \<open>
  The second replacement, by \<open>\n? three backquotes $\<close> with the flag \<open>m\<close>, removes the
  first place where three backquotes stand at the end of a line, a line feed just before
  them included.
\<close>

definition fence_at_end :: "jstring \<Rightarrow> bool" where
  "fence_at_end t \<longleftrightarrow>
     prefix [96, 96, 96] t
     \<and> (case drop 3 t of [] \<Rightarrow> True | c # r \<Rightarrow> is_line_terminator c)"

fun strip_closing_fence :: "jstring \<Rightarrow> jstring" where
  "strip_closing_fence [] = []"
| "strip_closing_fence (c # cs) =
     (if c = 10 \<and> fence_at_end cs then drop 3 cs
      else if fence_at_end (c # cs) then drop 3 (c # cs)
      else c # strip_closing_fence cs)"

text \<open>\<open>parseDeepExtraction\<close>: the \<open>catch\<close> turns the \<open>SyntaxError\<close> into \<open>null\<close>; what
  \<open>JSON.parse\<close> returns is returned as it is.\<close>

definition parseDeepExtraction :: "jstring \<Rightarrow> json option" where
  "parseDeepExtraction response =
     (let cleaned = strip_closing_fence (strip_opening_fence True response)
      in JSON_parse cleaned)"

section \<open>Notions used in the statements\<close>

text \<open>A vault that holds the listed daily files and, possibly, a template.\<close>

definition vault_of :: "(jstring \<times> jstring) list \<Rightarrow> jstring option \<Rightarrow> vault" where
  "vault_of files t = \<lparr>daily_dir = map_of files, daily_template = t\<rparr>"

text \<open>A line that the append operations pass over after a header: one that starts an
  HTML comment, or a blank one.\<close>

definition skippable :: "jstring \<Rightarrow> bool" where
  "skippable l \<longleftrightarrow> prefix (str ''<!-- '') l \<or> trim l = []"

text \<open>
  The content that \<open>ensureDailyNote\<close> writes into a new daily note, gathered from its
  branches.
\<close>

definition lifecycle_content :: "vault \<Rightarrow> date \<Rightarrow> jstring" where
  "lifecycle_content v d =
     rollover
       (case daily_dir v (dailyPath (d - 1)) of
          None \<Rightarrow> []
        | Some yesterdayContent \<Rightarrow> extractIncompletePriorities yesterdayContent)
       (case daily_template v of Some t \<Rightarrow> instantiate t d | None \<Rightarrow> skeleton d)"

text \<open>
  The Priorities section as the scans of the daily note delimit it: it opens at the first
  line that starts with \<open>## Priorities\<close>, it ends before the next line that starts with
  \<open>## \<close> and not with \<open>## Priorities\<close>, and lines that start with \<open>## Priorities\<close> are
  not part of it.
\<close>

definition is_priorities_header :: "jstring \<Rightarrow> bool" where
  "is_priorities_header l \<longleftrightarrow> prefix (str ''## Priorities'') l"

definition ends_priorities :: "jstring \<Rightarrow> bool" where
  "ends_priorities l \<longleftrightarrow> prefix (str ''## '') l \<and> \<not> prefix (str ''## Priorities'') l"

definition scanned_lines :: "jstring list \<Rightarrow> jstring list" where
  "scanned_lines ls =
     filter (\<lambda>l. \<not> is_priorities_header l)
       (takeWhile (\<lambda>l. \<not> ends_priorities l)
          (drop 1 (dropWhile (\<lambda>l. \<not> is_priorities_header l) ls)))"

text \<open>
  A section in the words of the specification: the lines after the first line that is
  the header \<open>## name\<close>, up to the next line that starts with \<open>## \<close>.
\<close>

definition section_body :: "jstring \<Rightarrow> jstring list \<Rightarrow> jstring list" where
  "section_body name ls =
     takeWhile (\<lambda>l. \<not> prefix (str ''## '') l)
       (drop 1 (dropWhile (\<lambda>l. l \<noteq> str ''## '' @ name) ls))"

text \<open>What one line of the section gives: to \<open>getPriorities\<close>, and to the rollover.\<close>

definition priority_of_line :: "jstring \<Rightarrow> priority list" where
  "priority_of_line l =
     (case doneMatch l of
        Some m \<Rightarrow> [\<lparr>item_text = m, item_done = True\<rparr>]
      | None \<Rightarrow>
          (case todoMatch l of
             Some m \<Rightarrow> if trim m \<noteq> [] then [\<lparr>item_text = m, item_done = False\<rparr>] else []
           | None \<Rightarrow> []))"

definition incomplete_of_line :: "jstring \<Rightarrow> jstring list" where
  "incomplete_of_line l =
     (case todoMatch l of
        Some m \<Rightarrow> if trim m \<noteq> [] then [strip_rolled m] else []
      | None \<Rightarrow> [])"

text \<open>
  The lines of a conversation that \<open>lightExtract\<close> looks at: the lines of the text of
  each entry that is a message and has a text.
\<close>

definition entry_lines :: "SessionEntry \<Rightarrow> jstring list" where
  "entry_lines entry =
     (case entry_message entry of
        None \<Rightarrow> []
      | Some m \<Rightarrow>
          if entry_type entry = str ''message'' \<and> extractText (content m) \<noteq> []
          then split_nl (extractText (content m)) else [])"

definition conversation_lines :: "SessionEntry list \<Rightarrow> jstring list" where
  "conversation_lines entries = concat (map entry_lines entries)"

text \<open>A line that holds a decision marker and whose length is over 15 and under 300.\<close>

definition is_decision_line :: "jstring \<Rightarrow> bool" where
  "is_decision_line line \<longleftrightarrow>
     test_words decision_rx line \<and> 15 < length line \<and> length line < 300"

text \<open>An entry that is a message of the user with the given text.\<close>

definition user_message :: "jstring \<Rightarrow> SessionEntry" where
  "user_message s =
     \<lparr>entry_type = str ''message'',
      entry_message = Some \<lparr>role = Some (str ''user''), content = Str s\<rparr>\<rparr>"







text \<open>The characters a JSON value can start with: a brace, a bracket, a quote, a minus
  sign, a digit, and the first letters of \<open>true\<close>, \<open>false\<close> and \<open>null\<close>.\<close>

definition starts_json_value :: "nat \<Rightarrow> bool" where
  "starts_json_value c \<longleftrightarrow> c \<in> set (str ''{[-tfn'') \<or> c = 34 \<or> is_digit c"

text \<open>The text of lines that each end with a line feed.\<close>

definition terminated :: "jstring list \<Rightarrow> jstring" where
  "terminated ls = concat (map (\<lambda>l. l @ [10]) ls)"

text \<open>
  A template in the words of the specification: a sequence of pieces, each a text or one
  of the three placeholders. \<open>template_text\<close> is the template as it is written and
  \<open>note_text\<close> the note made from it for a date, with every placeholder replaced by its
  value. A text piece is plain when it has no opening brace (the code unit 123).
\<close>

datatype piece = Text jstring | Date | Day_Name | Full_Date

fun token :: "piece \<Rightarrow> jstring" where
  "token (Text s) = s"
| "token Date = str ''{{DATE}}''"
| "token Day_Name = str ''{{DAY_NAME}}''"
| "token Full_Date = str ''{{FULL_DATE}}''"

fun filled :: "date \<Rightarrow> piece \<Rightarrow> jstring" where
  "filled d (Text s) = s"
| "filled d Date = formatDate d"
| "filled d Day_Name = dayName d"
| "filled d Full_Date = fullDate d"

fun plain :: "piece \<Rightarrow> bool" where
  "plain (Text s) \<longleftrightarrow> 123 \<notin> set s"
| "plain p \<longleftrightarrow> True"

definition template_text :: "piece list \<Rightarrow> jstring" where
  "template_text ps = concat (map token ps)"

definition note_text :: "date \<Rightarrow> piece list \<Rightarrow> jstring" where
  "note_text d ps = concat (map (filled d) ps)"

text \<open>The skeleton that is built into \<open>ensureDailyNote\<close>, as pieces.\<close>

definition builtin_template :: "piece list" where
  "builtin_template =
     [Text (str ''---\<newline>date: ''), Date, Text (str ''\<newline>---\<newline># ''), Day_Name, Text (str '', ''),
      Full_Date,
      Text (str ''\<newline>\<newline>## Priorities\<newline>- [ ] \<newline>\<newline>## Log\<newline>\<newline>## Notes\<newline>\<newline>## Decisions\<newline>\<newline>## Learned\<newline>'')]"

text \<open>The text of a piece after the first \<open>n\<close> of the three replacements.\<close>

fun stage :: "nat \<Rightarrow> date \<Rightarrow> piece \<Rightarrow> jstring" where
  "stage n d (Text s) = s"
| "stage n d Date = (if 1 \<le> n then formatDate d else str ''{{DATE}}'')"
| "stage n d Day_Name = (if 2 \<le> n then dayName d else str ''{{DAY_NAME}}'')"
| "stage n d Full_Date = (if 3 \<le> n then fullDate d else str ''{{FULL_DATE}}'')"

text \<open>
  The rollover in the words of the specification. The items are the incomplete
  priorities of yesterday's note, when there is one; \<open>insert_before_first pat ins s\<close> is
  \<open>s\<close> with \<open>ins\<close> put in before the first place where \<open>pat\<close> stands, and \<open>s\<close> itself
  when \<open>pat\<close> stands nowhere; the new note is the note made from the template, with the
  rolled items, each on its line, put in before the first placeholder line.
\<close>

definition rolled_items :: "vault \<Rightarrow> date \<Rightarrow> jstring list" where
  "rolled_items v d =
     (case daily_dir v (dailyPath (d - 1)) of
        None \<Rightarrow> []
      | Some y \<Rightarrow> concat (map incomplete_of_line (scanned_lines (split_nl y))))"

fun insert_before_first :: "jstring \<Rightarrow> jstring \<Rightarrow> jstring \<Rightarrow> jstring" where
  "insert_before_first pat ins [] = (if pat = [] then ins else [])"
| "insert_before_first pat ins (c # cs) =
     (if prefix pat (c # cs) then ins @ c # cs else c # insert_before_first pat ins cs)"

definition new_note :: "date \<Rightarrow> piece list \<Rightarrow> jstring list \<Rightarrow> jstring" where
  "new_note d ps items =
     (if items = [] then note_text d ps
      else insert_before_first placeholder (terminated (map rolled_line items))
             (note_text d ps))"

section \<open>Lines, trimming and the insertion index\<close>

declare digits.simps [simp del]
declare replace_all_from.simps [simp del]
declare parse_value.simps [simp del] parse_elements.simps [simp del] parse_members.simps [simp del]

lemma split_nl_not_Nil: "split_nl s \<noteq> []"
  by (induction s) (auto split: list.splits)

lemma join_nl_Cons: "ls \<noteq> [] \<Longrightarrow> join_nl (l # ls) = l @ 10 # join_nl ls"
  by (cases ls) auto

lemma join_split_nl: "join_nl (split_nl s) = s"
proof (induction s)
  case Nil
  show ?case by simp
next
  case (Cons c cs)
  show ?case
  proof (cases "c = 10")
    case True
    with Cons show ?thesis by (simp add: join_nl_Cons split_nl_not_Nil)
  next
    case False
    obtain l ls where sp: "split_nl cs = l # ls"
      using split_nl_not_Nil by (cases "split_nl cs") auto
    with Cons False show ?thesis by (cases ls) auto
  qed
qed

lemma split_nl_no_newline: "l \<in> set (split_nl s) \<Longrightarrow> 10 \<notin> set l"
proof (induction s arbitrary: l)
  case Nil
  then show ?case by simp
next
  case (Cons c cs)
  obtain m ms where sp: "split_nl cs = m # ms"
    using split_nl_not_Nil by (cases "split_nl cs") auto
  with Cons show ?case by (auto split: if_splits)
qed

lemma split_nl_line: "10 \<notin> set l \<Longrightarrow> split_nl l = [l]"
  by (induction l) auto

lemma split_nl_append: "10 \<notin> set l \<Longrightarrow> split_nl (l @ 10 # s) = l # split_nl s"
  by (induction l) auto

lemma split_join_nl:
  "ls \<noteq> [] \<Longrightarrow> \<forall>l\<in>set ls. 10 \<notin> set l \<Longrightarrow> split_nl (join_nl ls) = ls"
proof (induction ls rule: join_nl.induct)
  case 1
  then show ?case by simp
next
  case (2 l)
  then show ?case by (simp add: split_nl_line)
next
  case (3 l m ls)
  then show ?case by (simp add: split_nl_append)
qed

lemma trim_empty_iff: "trim s = [] \<longleftrightarrow> (\<forall>c\<in>set s. is_space c)"
proof
  assume "trim s = []"
  then have "dropWhile is_space (rev (dropWhile is_space s)) = []" by (simp add: trim_def)
  then have "\<forall>c\<in>set (rev (dropWhile is_space s)). is_space c"
    by (simp add: dropWhile_eq_Nil_conv)
  then have "dropWhile is_space s = []"
    by (metis dropWhile_eq_Nil_conv hd_dropWhile list.set_sel(1) set_rev)
  then show "\<forall>c\<in>set s. is_space c" by (simp add: dropWhile_eq_Nil_conv)
next
  assume "\<forall>c\<in>set s. is_space c"
  then have "dropWhile is_space s = []" by (induction s) auto
  then show "trim s = []" unfolding trim_def by (simp only: rev.simps dropWhile.simps)
qed

lemma header_not_skippable: "prefix (str ''## '') l \<Longrightarrow> \<not> skippable l"
  by (auto simp: skippable_def str_def prefix_def trim_empty_iff is_space_def)

lemma skip_count_takeWhile: "skip_count h ls = length (takeWhile skippable ls)"
proof (induction ls)
  case Nil
  show ?case by simp
next
  case (Cons l ls)
  show ?case
  proof (cases "prefix (str ''## '') l")
    case True
    then have "\<not> skippable l" by (rule header_not_skippable)
    then show ?thesis using Cons by (auto simp: skippable_def)
  next
    case False
    then show ?thesis using Cons by (auto simp: skippable_def)
  qed
qed

lemma find_insert_None: "find_insert h ls = None \<longleftrightarrow> (\<forall>l\<in>set ls. \<not> prefix h l)"
  by (induction ls) auto

lemma find_insert_Some:
  "\<forall>x\<in>set pre. \<not> prefix h x \<Longrightarrow> prefix h l \<Longrightarrow>
   find_insert h (pre @ l # post) = Some (Suc (length pre + skip_count h post))"
  by (induction pre) auto

lemma ensureDailyNote_existing:
  "daily_dir v (dailyPath d) = Some c \<Longrightarrow> ensureDailyNote v d = Inr (dailyPath d, v)"
  by (simp add: ensureDailyNote_def existsSync_def)

section \<open>Creating and appending\<close>

lemma ensureDailyNote_fresh:
  "daily_dir v (dailyPath d) = None \<Longrightarrow>
   ensureDailyNote v d = Inr (dailyPath d, writeFileSync v (dailyPath d) (lifecycle_content v d))"
  by (cases "daily_dir v (dailyPath (d - 1))")
     (simp_all add: ensureDailyNote_def existsSync_def readFileSync_def lifecycle_content_def
        rollover_def Let_def)

lemma read_written [simp]:
  "readFileSync (writeFileSync v p c) p = Inr c"
  by (simp add: readFileSync_def writeFileSync_def)

lemma daily_dir_written [simp]:
  "daily_dir (writeFileSync v p c) p = Some c"
  by (simp add: writeFileSync_def)

lemma read_existing: "daily_dir v p = Some c \<Longrightarrow> readFileSync v p = Inr c"
  by (simp add: readFileSync_def)

lemma appendToSection_existing:
  "daily_dir v (dailyPath d) = Some c \<Longrightarrow>
   appendToSection v S L d =
     (case find_insert (str ''## '' @ S) (split_nl c) of
        None \<Rightarrow> Inr v
      | Some i \<Rightarrow> Inr (writeFileSync v (dailyPath d) (join_nl (splice_in i L (split_nl c)))))"
  by (simp add: appendToSection_def ensureDailyNote_existing read_existing)

lemma appendToLog_existing:
  "daily_dir v (dailyPath d) = Some c \<Longrightarrow>
   appendToLog v now e d =
     (case find_insert (str ''## Log'') (split_nl c) of
        None \<Rightarrow> Inr (writeFileSync v (dailyPath d) (c @ str ''\<newline>'' @ logEntry now e @ str ''\<newline>''))
      | Some i \<Rightarrow>
          Inr (writeFileSync v (dailyPath d) (join_nl (splice_in i (logEntry now e) (split_nl c)))))"
  by (simp add: appendToLog_def ensureDailyNote_existing read_existing)

lemma appendToSection_fresh:
  "daily_dir v (dailyPath d) = None \<Longrightarrow>
   appendToSection v S L d =
     appendToSection (writeFileSync v (dailyPath d) (lifecycle_content v d)) S L d"
  by (simp add: appendToSection_def ensureDailyNote_fresh ensureDailyNote_existing)

lemma appendToLog_fresh:
  "daily_dir v (dailyPath d) = None \<Longrightarrow>
   appendToLog v now e d =
     appendToLog (writeFileSync v (dailyPath d) (lifecycle_content v d)) now e d"
  by (simp add: appendToLog_def ensureDailyNote_fresh ensureDailyNote_existing)

lemma splice_found:
  "splice_in (Suc (length pre + skip_count h post)) L (pre @ l # post)
   = pre @ l # takeWhile skippable post @ L # dropWhile skippable post"
  by (simp add: splice_in_def skip_count_takeWhile takeWhile_eq_take [symmetric]
        dropWhile_eq_drop [symmetric])

lemma length_join_nl: "length (join_nl ls) = sum_list (map length ls) + (length ls - 1)"
  by (induction ls rule: join_nl.induct) auto

lemma length_join_nl_insert:
  "xs \<noteq> [] \<Longrightarrow>
   length (join_nl (xs @ L # ys)) = length (join_nl (xs @ ys)) + length L + 1"
  by (cases xs) (simp_all add: length_join_nl)

lemma first_header_split:
  "\<exists>l\<in>set ls. P l \<Longrightarrow>
   \<exists>pre h post. ls = pre @ h # post \<and> (\<forall>l\<in>set pre. \<not> P l) \<and> P h"
  by (metis split_list_first_prop)

lemma ensureDailyNote_total:
  "\<exists>v1 c. ensureDailyNote v d = Inr (dailyPath d, v1) \<and> daily_dir v1 (dailyPath d) = Some c"
proof (cases "daily_dir v (dailyPath d)")
  case None
  then show ?thesis by (simp add: ensureDailyNote_fresh)
next
  case (Some c)
  then show ?thesis by (simp add: ensureDailyNote_existing)
qed

lemma digits_small: "n < 10 \<Longrightarrow> digits n = [48 + n]"
  by (simp add: digits.simps)

lemma pad_two_digits: "n < 100 \<Longrightarrow> padStart 2 48 (digits n) = [48 + n div 10, 48 + n mod 10]"
proof (cases "n < 10")
  case True
  then show ?thesis by (simp add: digits_small padStart_def)
next
  case False
  assume "n < 100"
  with False have "n div 10 < 10" by simp
  with False show ?thesis
    by (simp add: digits.simps [of n] digits_small padStart_def)
qed

lemma civil_epoch: "civil 0 = (1970, 1, 1)"
  by code_simp

lemmas date_eval =
  formatDate_def dayName_def fullDate_def getFullYear_def getMonth_def
  getDate_def getDay_def String_of_int_def digits.simps padStart_def DAYS_def MONTHS_def
  at_or_undefined_def

lemma skeleton_epoch:
  "skeleton 0 = str ''---\<newline>date: 1970-01-01\<newline>---\<newline># Thursday, January 1, 1970\<newline>\<newline>## Priorities\<newline>- [ ] \<newline>\<newline>## Log\<newline>\<newline>## Notes\<newline>\<newline>## Decisions\<newline>\<newline>## Learned\<newline>''"
  by (simp add: skeleton_def date_eval civil_epoch str_def)

lemma lifecycle_no_yesterday:
  "daily_dir v (dailyPath (d - 1)) = None \<Longrightarrow> daily_template v = None \<Longrightarrow>
   lifecycle_content v d = skeleton d"
  by (simp add: lifecycle_content_def rollover_def)

section \<open>The scans of the Priorities section\<close>

lemma priorities_loop_acc:
  "priorities_loop inP acc ls = acc @ priorities_loop inP [] ls"
proof (induction ls arbitrary: inP acc)
  case Nil
  show ?case by simp
next
  case (Cons l ls)
  have IH: "priorities_loop i (a @ [x]) ls = a @ x # priorities_loop i [] ls"
    "priorities_loop i [x] ls = x # priorities_loop i [] ls"
    "priorities_loop i acc ls = acc @ priorities_loop i [] ls" for i a x
    using Cons.IH [of i "a @ [x]"] Cons.IH [of i "[x]"] Cons.IH [of i acc] by simp_all
  show ?case
    by (cases "doneMatch l"; cases "todoMatch l") (simp_all add: IH)
qed

lemma priorities_loop_single:
  "priorities_loop inP [x] ls = x # priorities_loop inP [] ls"
  using priorities_loop_acc [of inP "[x]" ls] by simp

lemma priorities_loop_inside:
  "priorities_loop True [] ls =
     concat (map priority_of_line
       (filter (\<lambda>l. \<not> is_priorities_header l) (takeWhile (\<lambda>l. \<not> ends_priorities l) ls)))"
proof (induction ls)
  case Nil
  show ?case by simp
next
  case (Cons l ls)
  show ?case
  proof (cases "prefix (str ''## Priorities'') l")
    case True
    with Cons show ?thesis by (simp add: is_priorities_header_def ends_priorities_def)
  next
    case False
    show ?thesis
    proof (cases "prefix (str ''## '') l")
      case True
      with False show ?thesis by (simp add: is_priorities_header_def ends_priorities_def)
    next
      case nohdr: False
      have "priorities_loop True [] (l # ls) = priority_of_line l @ priorities_loop True [] ls"
        using False nohdr
        by (simp add: priority_of_line_def priorities_loop_single split: option.splits)
      with Cons False nohdr show ?thesis
        by (simp add: is_priorities_header_def ends_priorities_def)
    qed
  qed
qed

lemma priorities_loop_outside:
  "priorities_loop False [] ls =
     priorities_loop True [] (drop 1 (dropWhile (\<lambda>l. \<not> is_priorities_header l) ls))"
  by (induction ls) (simp_all add: is_priorities_header_def)

lemma priorities_loop_scanned:
  "priorities_loop False [] ls = concat (map priority_of_line (scanned_lines ls))"
  by (simp add: priorities_loop_outside priorities_loop_inside scanned_lines_def)

lemma incomplete_loop_acc:
  "incomplete_loop inP acc ls = acc @ incomplete_loop inP [] ls"
proof (induction ls arbitrary: inP acc)
  case Nil
  show ?case by simp
next
  case (Cons l ls)
  have IH: "incomplete_loop i (a @ [x]) ls = a @ x # incomplete_loop i [] ls"
    "incomplete_loop i [x] ls = x # incomplete_loop i [] ls"
    "incomplete_loop i acc ls = acc @ incomplete_loop i [] ls" for i a x
    using Cons.IH [of i "a @ [x]"] Cons.IH [of i "[x]"] Cons.IH [of i acc] by simp_all
  show ?case
    by (cases "todoMatch l") (simp_all add: IH)
qed

lemma incomplete_loop_single:
  "incomplete_loop inP [x] ls = x # incomplete_loop inP [] ls"
  using incomplete_loop_acc [of inP "[x]" ls] by simp

lemma incomplete_loop_inside:
  "incomplete_loop True [] ls =
     concat (map incomplete_of_line
       (filter (\<lambda>l. \<not> is_priorities_header l) (takeWhile (\<lambda>l. \<not> ends_priorities l) ls)))"
proof (induction ls)
  case Nil
  show ?case by simp
next
  case (Cons l ls)
  show ?case
  proof (cases "prefix (str ''## Priorities'') l")
    case True
    with Cons show ?thesis by (simp add: is_priorities_header_def ends_priorities_def)
  next
    case False
    show ?thesis
    proof (cases "prefix (str ''## '') l")
      case True
      with False show ?thesis by (simp add: is_priorities_header_def ends_priorities_def)
    next
      case nohdr: False
      have "incomplete_loop True [] (l # ls) = incomplete_of_line l @ incomplete_loop True [] ls"
        using False nohdr
        by (simp add: incomplete_of_line_def incomplete_loop_single split: option.splits)
      with Cons False nohdr show ?thesis
        by (simp add: is_priorities_header_def ends_priorities_def)
    qed
  qed
qed

lemma incomplete_loop_outside:
  "incomplete_loop False [] ls =
     incomplete_loop True [] (drop 1 (dropWhile (\<lambda>l. \<not> is_priorities_header l) ls))"
  by (induction ls) (simp_all add: is_priorities_header_def)

lemma extractIncompletePriorities_scanned:
  "extractIncompletePriorities c = concat (map incomplete_of_line (scanned_lines (split_nl c)))"
  by (simp add: extractIncompletePriorities_def incomplete_loop_outside incomplete_loop_inside
      scanned_lines_def)

subsection \<open>The shape of a checklist line\<close>

lemma takeWhile_run:
  "\<forall>x\<in>set xs. P x \<Longrightarrow> ys = [] \<or> \<not> P (hd ys) \<Longrightarrow> takeWhile P (xs @ ys) = xs"
  by (cases ys) (simp_all add: takeWhile_append2)

lemma dropWhile_run:
  "\<forall>x\<in>set xs. P x \<Longrightarrow> ys = [] \<or> \<not> P (hd ys) \<Longrightarrow> dropWhile P (xs @ ys) = ys"
  by (cases ys) (simp_all add: dropWhile_append2)

lemma checklist_match_shape:
  assumes "ws1 \<noteq> []" "\<forall>x\<in>set ws1. is_space x" "mark c"
    and "ws2 \<noteq> []" "\<forall>x\<in>set ws2. is_space x"
    and "t \<noteq> []" "\<not> is_space (hd t)" "\<forall>x\<in>set t. \<not> is_line_terminator x"
  shows "checklist_match mark (45 # ws1 @ 91 # c # 93 # ws2 @ t) = Some t"
proof -
  have b: "\<not> is_space 91" by (simp add: is_space_def)
  have 1: "takeWhile is_space (ws1 @ 91 # c # 93 # ws2 @ t) = ws1"
    using assms(2) b by (intro takeWhile_run) simp_all
  have 2: "dropWhile is_space (ws1 @ 91 # c # 93 # ws2 @ t) = 91 # c # 93 # ws2 @ t"
    using assms(2) b by (intro dropWhile_run) simp_all
  have 3: "takeWhile is_space (ws2 @ t) = ws2"
    using assms(5,7) by (intro takeWhile_run) simp_all
  obtain p where p: "length ws2 = Suc p"
    using assms(4) by (cases ws2) auto
  have 4: "takeWhile (\<lambda>c. \<not> is_line_terminator c) t = t"
    using assms(8) by (simp add: takeWhile_eq_all_conv)
  have 5: "drop (Suc p) (ws2 @ t) = t"
    using p by simp
  have "capture_from (ws2 @ t) (Suc p) =
      (let body = takeWhile (\<lambda>c. \<not> is_line_terminator c) (drop (Suc p) (ws2 @ t))
       in if body \<noteq> [] then Some body else capture_from (ws2 @ t) p)"
    by (rule capture_from.simps)
  also have "\<dots> = Some t"
    unfolding 5 4 using assms(6) by (simp add: Let_def)
  finally have "capture_from (ws2 @ t) (length ws2) = Some t"
    unfolding p .
  then show ?thesis using assms(1,3) by (simp add: checklist_match_def 1 2 3)
qed

section \<open>Replacing the placeholder\<close>

lemma index_of_first:
  "pat \<noteq> [] \<Longrightarrow> \<forall>j<length pre. \<not> prefix pat (drop j (pre @ pat @ post)) \<Longrightarrow>
   index_of pat (pre @ pat @ post) = Some (length pre)"
proof (induction pre)
  case Nil
  then show ?case by (cases pat) simp_all
next
  case (Cons c pre)
  from Cons.prems(2) have "\<not> prefix pat (drop 0 ((c # pre) @ pat @ post))" by blast
  then have np: "\<not> prefix pat (c # pre @ pat @ post)" by simp
  have "\<forall>j<length pre. \<not> prefix pat (drop j (pre @ pat @ post))"
  proof (intro allI impI)
    fix j assume "j < length pre"
    then have "Suc j < length (c # pre)" by simp
    with Cons.prems(2) have "\<not> prefix pat (drop (Suc j) ((c # pre) @ pat @ post))" by blast
    then show "\<not> prefix pat (drop j (pre @ pat @ post))" by simp
  qed
  with Cons.IH Cons.prems(1) have "index_of pat (pre @ pat @ post) = Some (length pre)" by simp
  with np show ?case by simp
qed

lemma get_substitution_plain:
  "36 \<notin> set rep \<Longrightarrow> get_substitution matched preceding following rep = rep"
  by (induction matched preceding following rep rule: get_substitution.induct) auto

lemma replace_first_at:
  assumes "pat \<noteq> []" and "\<forall>j<length pre. \<not> prefix pat (drop j (pre @ pat @ post))"
  shows "replace_first pat rep (pre @ pat @ post)
         = pre @ get_substitution pat pre post rep @ post"
  using index_of_first [OF assms] by (simp add: replace_first_def)

lemma replace_all_from_absent:
  "c \<in> set pat \<Longrightarrow> c \<notin> set s \<Longrightarrow> replace_all_from pat rep seen s = s"
proof (induction s arbitrary: seen)
  case Nil
  then show ?case by (subst replace_all_from.simps) auto
next
  case (Cons x xs)
  have "\<not> prefix pat (x # xs)"
  proof
    assume "prefix pat (x # xs)"
    then have "set pat \<subseteq> set (x # xs)" by (rule set_mono_prefix)
    with Cons.prems show False by auto
  qed
  moreover have "replace_all_from pat rep (seen @ [x]) xs = xs"
    using Cons by simp
  ultimately show ?case by (subst replace_all_from.simps) simp
qed

lemma instantiate_plain: "123 \<notin> set t \<Longrightarrow> instantiate t d = t"
  by (simp add: instantiate_def replace_all_def replace_all_from_absent [of 123] str_def)

lemma rollover_at:
  assumes "items \<noteq> []"
    and "\<forall>j<length pre. \<not> prefix placeholder (drop j (pre @ placeholder @ post))"
  shows "rollover items (pre @ placeholder @ post)
         = pre @ get_substitution placeholder pre post
                   (join_nl (map rolled_line items) @ str ''\<newline>- [ ] \<newline>'') @ post"
proof -
  have "placeholder \<noteq> []" by (simp add: placeholder_def str_def)
  from replace_first_at [OF this assms(2)] assms(1) show ?thesis
    by (simp add: rollover_def)
qed

lemma join_nl_no_dollar:
  "\<forall>l\<in>set ls. 36 \<notin> set l \<Longrightarrow> 36 \<notin> set (join_nl ls)"
  by (induction ls rule: join_nl.induct) auto

lemma rolled_no_dollar:
  assumes "\<forall>p\<in>set items. 36 \<notin> set p"
  shows "36 \<notin> set (join_nl (map rolled_line items) @ str ''\<newline>- [ ] \<newline>'')"
proof -
  have "\<forall>l\<in>set (map rolled_line items). 36 \<notin> set l"
    using assms by (auto simp: rolled_line_def str_def)
  then have "36 \<notin> set (join_nl (map rolled_line items))" by (rule join_nl_no_dollar)
  then show ?thesis by (simp add: str_def)
qed

lemma ensureDailyNote_rollover:
  assumes "daily_dir v (dailyPath d) = None"
    and "daily_dir v (dailyPath (d - 1)) = Some y"
  shows "ensureDailyNote v d =
           Inr (dailyPath d, writeFileSync v (dailyPath d)
                  (rollover (extractIncompletePriorities y)
                     (case daily_template v of Some t \<Rightarrow> instantiate t d | None \<Rightarrow> skeleton d)))"
  using assms by (simp add: ensureDailyNote_fresh lifecycle_content_def)

subsection \<open>The second of January 1970\<close>

lemma civil_day_one: "civil 1 = (1970, 1, 2)"
  by code_simp

lemma day_one_path: "dailyPath 1 \<noteq> dailyPath 0"
  by (simp add: dailyPath_def date_eval civil_epoch civil_day_one str_def)

lemma skeleton_day_one:
  "skeleton 1 = str ''---\<newline>date: 1970-01-02\<newline>---\<newline># Friday, January 2, 1970\<newline>\<newline>## Priorities\<newline>- [ ] \<newline>\<newline>## Log\<newline>\<newline>## Notes\<newline>\<newline>## Decisions\<newline>\<newline>## Learned\<newline>''"
  by (simp add: skeleton_def date_eval civil_day_one str_def)

lemmas checklist_eval =
  todoMatch_def doneMatch_def checklist_match_def is_space_def is_line_terminator_def trim_def
  is_marker_tail_def rolled_marker_def Let_def

section \<open>The placeholder line and the rolled-over lines\<close>

lemma join_nl_append_lines:
  "B \<noteq> [] \<Longrightarrow> join_nl (A @ B) = terminated A @ join_nl B"
proof (induction A)
  case Nil
  show ?case by (simp add: terminated_def)
next
  case (Cons a A)
  then have "join_nl (a # (A @ B)) = a @ 10 # join_nl (A @ B)"
    by (intro join_nl_Cons) simp
  with Cons show ?case by (simp add: terminated_def)
qed

lemma terminated_join_nl: "R \<noteq> [] \<Longrightarrow> terminated R = join_nl R @ [10]"
  by (induction R rule: join_nl.induct) (simp_all add: terminated_def)

lemma placeholder_prefix_line:
  assumes "prefix placeholder (u @ 10 # X)" and "10 \<notin> set u"
  shows "u = str ''- [ ] ''"
proof -
  from assms(1) obtain z where e: "u @ 10 # X = placeholder @ z"
    by (auto simp: prefix_def)
  have "takeWhile (\<lambda>c. c \<noteq> 10) (u @ 10 # X) = u"
    using assms(2) by (intro takeWhile_run) auto
  moreover have "takeWhile (\<lambda>c. c \<noteq> 10) (placeholder @ z) = str ''- [ ] ''"
    by (simp add: placeholder_def str_def)
  ultimately show ?thesis using e by simp
qed

lemma first_placeholder_lines:
  assumes "\<forall>a\<in>set A. 10 \<notin> set a \<and> \<not> suffix (str ''- [ ] '') a"
  shows "j < length (terminated A) \<Longrightarrow> \<not> prefix placeholder (drop j (terminated A @ R))"
  using assms
proof (induction A arbitrary: j)
  case Nil
  then show ?case by (simp add: terminated_def)
next
  case (Cons a A)
  have t: "terminated (a # A) = a @ 10 # terminated A"
    by (simp add: terminated_def)
  show ?case
  proof (cases "j \<le> length a")
    case True
    then have d: "drop j (terminated (a # A) @ R) = drop j a @ 10 # (terminated A @ R)"
      by (simp add: t)
    show ?thesis
    proof
      assume "prefix placeholder (drop j (terminated (a # A) @ R))"
      then have "prefix placeholder (drop j a @ 10 # (terminated A @ R))"
        by (simp only: d)
      moreover have "10 \<notin> set (drop j a)"
        using Cons.prems(2) by (auto dest: in_set_dropD)
      ultimately have "drop j a = str ''- [ ] ''" by (rule placeholder_prefix_line)
      then have "suffix (str ''- [ ] '') a" by (metis suffix_drop)
      with Cons.prems(2) show False by simp
    qed
  next
    case False
    then obtain j' where j': "j = Suc (length a + j')"
      by (metis Suc_leI add_Suc le_add_diff_inverse not_le)
    have "terminated (a # A) @ R = (a @ [10]) @ (terminated A @ R)"
      by (simp add: t)
    then have d: "drop j (terminated (a # A) @ R) = drop j' (terminated A @ R)"
      by (simp only: j' drop_append) simp
    from j' Cons.prems(1) have "j' < length (terminated A)" by (simp add: t)
    then have "\<not> prefix placeholder (drop j' (terminated A @ R))"
      using Cons.prems(2) by (intro Cons.IH) simp_all
    then show ?thesis by (simp only: d) simp
  qed
qed

subsection \<open>What the unchecked pattern captures\<close>

lemma line_terminator_is_space: "is_line_terminator c \<Longrightarrow> is_space c"
  by (auto simp: is_line_terminator_def is_space_def)

lemma capture_from_subset: "capture_from r p = Some m \<Longrightarrow> set m \<subseteq> set r"
proof (induction p)
  case 0
  then show ?case by simp
next
  case (Suc p)
  have "set (takeWhile (\<lambda>c. \<not> is_line_terminator c) (drop (Suc p) r)) \<subseteq> set r"
    by (meson in_set_dropD set_takeWhileD subsetI)
  with Suc show ?case by (auto simp: Let_def split: if_splits)
qed

lemma capture_from_no_terminator:
  "capture_from r p = Some m \<Longrightarrow> \<forall>x\<in>set m. \<not> is_line_terminator x"
proof (induction p)
  case 0
  then show ?case by simp
next
  case (Suc p)
  have "\<forall>x\<in>set (takeWhile (\<lambda>c. \<not> is_line_terminator c) (drop (Suc p) r)). \<not> is_line_terminator x"
    by (auto dest: set_takeWhileD)
  with Suc show ?case by (auto simp: Let_def split: if_splits)
qed

lemma capture_from_top:
  assumes "dropWhile is_space r \<noteq> []" and "takeWhile is_space r \<noteq> []"
  shows "capture_from r (length (takeWhile is_space r))
         = Some (takeWhile (\<lambda>c. \<not> is_line_terminator c) (dropWhile is_space r))
       \<and> \<not> is_space (hd (takeWhile (\<lambda>c. \<not> is_line_terminator c) (dropWhile is_space r)))"
proof -
  obtain c D where D: "dropWhile is_space r = c # D"
    using assms(1) by (cases "dropWhile is_space r") auto
  then have c: "\<not> is_space c"
    by (metis hd_dropWhile list.sel(1) list.distinct(1))
  then have lt: "\<not> is_line_terminator c"
    using line_terminator_is_space by blast
  obtain q where q: "length (takeWhile is_space r) = Suc q"
    using assms(2) by (cases "takeWhile is_space r") auto
  have dr: "drop (Suc q) r = c # D"
    using D q by (metis dropWhile_eq_drop)
  have "capture_from r (Suc q) =
      (let body = takeWhile (\<lambda>c. \<not> is_line_terminator c) (drop (Suc q) r)
       in if body \<noteq> [] then Some body else capture_from r q)"
    by (rule capture_from.simps)
  also have "\<dots> = Some (takeWhile (\<lambda>c. \<not> is_line_terminator c) (c # D))"
    unfolding dr using lt by (simp add: Let_def)
  finally show ?thesis
    unfolding q D using lt c by simp
qed

lemma checklist_match_nonblank:
  assumes "checklist_match mark l = Some m" and "trim m \<noteq> []"
  shows "m \<noteq> [] \<and> \<not> is_space (hd m) \<and> (\<forall>x\<in>set m. \<not> is_line_terminator x)"
proof -
  from assms(1) obtain r where
    cap: "capture_from r (length (takeWhile is_space r)) = Some m"
    by (auto simp: checklist_match_def split: list.splits if_splits)
  have nt: "\<forall>x\<in>set m. \<not> is_line_terminator x"
    using cap by (rule capture_from_no_terminator)
  have D: "dropWhile is_space r \<noteq> []"
  proof
    assume "dropWhile is_space r = []"
    then have "\<forall>x\<in>set r. is_space x" by (simp add: dropWhile_eq_Nil_conv)
    moreover have "set m \<subseteq> set r" using cap by (rule capture_from_subset)
    ultimately have "trim m = []" by (auto simp: trim_empty_iff)
    with assms(2) show False by simp
  qed
  have W: "takeWhile is_space r \<noteq> []"
  proof
    assume "takeWhile is_space r = []"
    with cap show False by simp
  qed
  from capture_from_top [OF D W] cap
  have m: "m = takeWhile (\<lambda>c. \<not> is_line_terminator c) (dropWhile is_space r)"
    and h: "\<not> is_space (hd m)"
    by simp_all
  from assms(2) have "m \<noteq> []" by (auto simp: trim_def)
  with h nt show ?thesis by simp
qed

lemma strip_rolled_prefix: "prefix (strip_rolled m) m"
  by (induction m) simp_all

lemma rolled_text_shape:
  assumes "todoMatch l = Some m" and "trim (strip_rolled m) \<noteq> []"
  shows "trim m \<noteq> [] \<and> strip_rolled m \<noteq> [] \<and> \<not> is_space (hd (strip_rolled m))
         \<and> (\<forall>x\<in>set (strip_rolled m). \<not> is_line_terminator x)"
proof -
  let ?X = "strip_rolled m"
  have sub: "set ?X \<subseteq> set m"
    using strip_rolled_prefix by (rule set_mono_prefix)
  from assms(2) obtain c where "c \<in> set ?X" "\<not> is_space c"
    by (auto simp: trim_empty_iff)
  with sub have tm: "trim m \<noteq> []" by (auto simp: trim_empty_iff)
  from checklist_match_nonblank [OF assms(1) [unfolded todoMatch_def] tm]
  have m: "m \<noteq> []" "\<not> is_space (hd m)" "\<forall>x\<in>set m. \<not> is_line_terminator x"
    by simp_all
  from assms(2) have X: "?X \<noteq> []" by (auto simp: trim_def)
  then have "hd ?X = hd m"
    using strip_rolled_prefix [of m] by (metis hd_append2 prefix_def)
  with m sub tm X show ?thesis by auto
qed

lemma done_is_not_todo: "doneMatch l = Some t \<Longrightarrow> todoMatch l = None"
  by (auto simp: doneMatch_def todoMatch_def checklist_match_def is_space_def
      split: list.splits if_splits)

lemma priority_of_rolled_line:
  assumes "X \<noteq> []" and "\<not> is_space (hd X)" and "\<forall>x\<in>set X. \<not> is_line_terminator x"
  shows "priority_of_line (rolled_line X)
         = [\<lparr>item_text = X @ str '' *(rolled over)*'', item_done = False\<rparr>]"
proof -
  let ?t = "X @ str '' *(rolled over)*''"
  have d: "doneMatch (rolled_line X) = None"
    by (simp add: doneMatch_def checklist_match_def rolled_line_def str_def is_space_def)
  have "checklist_match is_space (45 # [32] @ 91 # 32 # 93 # [32] @ ?t) = Some ?t"
    using assms
    by (intro checklist_match_shape)
       (auto simp: is_space_def is_line_terminator_def str_def)
  then have t: "todoMatch (rolled_line X) = Some ?t"
    by (simp add: todoMatch_def rolled_line_def str_def)
  have "hd X \<in> set ?t" using assms(1) by simp
  with assms(2) have "trim ?t \<noteq> []" by (auto simp: trim_empty_iff)
  with d t show ?thesis by (simp add: priority_of_line_def)
qed

lemma rolled_line_in_section:
  assumes "\<forall>l\<in>set A1. \<not> is_priorities_header l" and "is_priorities_header h"
    and "\<forall>l\<in>set A2. \<not> ends_priorities l"
  shows "rolled_line p \<in> set (scanned_lines (A1 @ h # A2 @ map rolled_line (q @ p # q') @ rest))"
proof -
  let ?R = "map rolled_line (q @ p # q')"
  have nh: "\<not> is_priorities_header (rolled_line x)" "\<not> ends_priorities (rolled_line x)" for x
    by (simp_all add: is_priorities_header_def ends_priorities_def rolled_line_def str_def)
  have 1: "dropWhile (\<lambda>l. \<not> is_priorities_header l) (A1 @ h # A2 @ ?R @ rest)
           = h # A2 @ ?R @ rest"
    using assms(1,2) by (simp add: dropWhile_append2)
  have 2: "takeWhile (\<lambda>l. \<not> ends_priorities l) ((A2 @ ?R) @ rest)
           = (A2 @ ?R) @ takeWhile (\<lambda>l. \<not> ends_priorities l) rest"
    using assms(3) nh by (intro takeWhile_append2) auto
  show ?thesis
    unfolding scanned_lines_def 1 using 2 by (simp add: nh)
qed

lemma incomplete_item_no_newline:
  assumes "p \<in> set (extractIncompletePriorities y)"
  shows "10 \<notin> set p"
proof -
  from assms obtain l where "p \<in> set (incomplete_of_line l)"
    by (auto simp: extractIncompletePriorities_scanned)
  then have "\<exists>m. todoMatch l = Some m \<and> trim m \<noteq> [] \<and> p = strip_rolled m"
    by (cases "todoMatch l") (auto simp: incomplete_of_line_def split: if_splits)
  then obtain m where m: "todoMatch l = Some m" "trim m \<noteq> []" "p = strip_rolled m"
    by blast
  from checklist_match_nonblank [OF m(1) [unfolded todoMatch_def] m(2)]
  have "\<forall>x\<in>set m. \<not> is_line_terminator x" by simp
  moreover have "is_line_terminator 10" by (simp add: is_line_terminator_def)
  ultimately have "10 \<notin> set m" by blast
  moreover have "set p \<subseteq> set m"
    unfolding m(3) using strip_rolled_prefix by (rule set_mono_prefix)
  ultimately show ?thesis by blast
qed

lemma rollover_lines:
  assumes "split_nl C = A @ str ''- [ ] '' # B" and "B \<noteq> []"
    and "\<forall>a\<in>set A. \<not> suffix (str ''- [ ] '') a"
    and "items \<noteq> []" and "\<forall>p\<in>set items. 36 \<notin> set p \<and> 10 \<notin> set p"
  shows "split_nl (rollover items C) = A @ map rolled_line items @ str ''- [ ] '' # B"
proof -
  let ?ph = "str ''- [ ] ''"
  let ?R = "map rolled_line items"
  have nl: "\<forall>l\<in>set (A @ ?ph # B). 10 \<notin> set l"
    using split_nl_no_newline [of _ C] assms(1) by metis
  have ph: "placeholder = ?ph @ [10]"
    by (simp add: placeholder_def str_def)
  have "C = join_nl (A @ ?ph # B)"
    using join_split_nl [of C] assms(1) by simp
  also have "\<dots> = terminated A @ join_nl (?ph # B)"
    by (rule join_nl_append_lines) simp
  also have "join_nl (?ph # B) = placeholder @ join_nl B"
    using assms(2) by (simp add: join_nl_Cons ph)
  finally have C: "C = terminated A @ placeholder @ join_nl B" .
  have first: "\<forall>j<length (terminated A).
      \<not> prefix placeholder (drop j (terminated A @ placeholder @ join_nl B))"
    using first_placeholder_lines [of A _ "placeholder @ join_nl B"] nl assms(3)
    by simp
  have nd: "\<forall>p\<in>set items. 36 \<notin> set p" using assms(5) by blast
  have R: "?R \<noteq> []" using assms(4) by simp
  have "rollover items C
        = terminated A @ (join_nl ?R @ str ''\<newline>- [ ] \<newline>'') @ join_nl B"
    unfolding C rollover_at [OF assms(4) first]
      get_substitution_plain [OF rolled_no_dollar [OF nd]] by simp
  also have "join_nl ?R @ str ''\<newline>- [ ] \<newline>'' = terminated ?R @ placeholder"
    by (simp add: terminated_join_nl [OF R] placeholder_def str_def)
  also have "terminated A @ (terminated ?R @ placeholder) @ join_nl B
             = terminated A @ terminated ?R @ join_nl (?ph # B)"
    using assms(2) by (simp add: join_nl_Cons ph)
  also have "\<dots> = join_nl (A @ ?R @ ?ph # B)"
    by (simp add: join_nl_append_lines [symmetric])
  finally have eq: "rollover items C = join_nl (A @ ?R @ ?ph # B)" .
  have "\<forall>l\<in>set ?R. 10 \<notin> set l"
    using assms(5) by (auto simp: rolled_line_def str_def)
  with nl have "\<forall>l\<in>set (A @ ?R @ ?ph # B). 10 \<notin> set l" by auto
  then show ?thesis
    unfolding eq by (intro split_join_nl) simp_all
qed

section \<open>Writing the bullets\<close>

lemma writeFileSync_twice [simp]:
  "writeFileSync (writeFileSync v p a) p b = writeFileSync v p b"
  by (simp add: writeFileSync_def)








section \<open>The template and its placeholders\<close>

subsection \<open>One replacement over a text in pieces\<close>

lemma replace_all_from_match:
  "pat \<noteq> [] \<Longrightarrow> 36 \<notin> set rep \<Longrightarrow>
   replace_all_from pat rep seen (pat @ rest)
   = rep @ replace_all_from pat rep (seen @ pat) rest"
  by (subst replace_all_from.simps) (simp add: get_substitution_plain)

lemma replace_all_from_step:
  "\<not> prefix pat (c # cs) \<Longrightarrow>
   replace_all_from pat rep seen (c # cs) = c # replace_all_from pat rep (seen @ [c]) cs"
  by (subst replace_all_from.simps) simp

lemma replace_all_from_skip:
  "c \<notin> set x \<Longrightarrow>
   replace_all_from (c # p) rep seen (x @ rest)
   = x @ replace_all_from (c # p) rep (seen @ x) rest"
proof (induction x arbitrary: seen)
  case Nil
  show ?case by simp
next
  case (Cons a x)
  then have "\<not> prefix (c # p) (a # x @ rest)" by auto
  then have "replace_all_from (c # p) rep seen (a # x @ rest)
             = a # replace_all_from (c # p) rep (seen @ [a]) (x @ rest)"
    by (rule replace_all_from_step)
  with Cons show ?case by simp
qed

text \<open>A placeholder other than the one that is replaced stays as it is.\<close>

lemma replace_all_from_token:
  assumes "\<not> prefix p (x @ rest)" and "123 \<notin> set x" and "x \<noteq> []"
  shows "replace_all_from (123 # 123 # p) rep seen (123 # 123 # x @ rest)
         = 123 # 123 # x @ replace_all_from (123 # 123 # p) rep (seen @ 123 # 123 # x) rest"
proof -
  let ?pat = "123 # 123 # p"
  have "\<not> prefix ?pat (123 # 123 # x @ rest)" using assms(1) by simp
  then have 1: "replace_all_from ?pat rep seen (123 # 123 # x @ rest)
                = 123 # replace_all_from ?pat rep (seen @ [123]) (123 # x @ rest)"
    by (rule replace_all_from_step)
  have "\<not> prefix ?pat (123 # x @ rest)"
    using assms(2,3) by (cases x) auto
  then have 2: "replace_all_from ?pat rep (seen @ [123]) (123 # x @ rest)
                = 123 # replace_all_from ?pat rep ((seen @ [123]) @ [123]) (x @ rest)"
    by (rule replace_all_from_step)
  have 3: "replace_all_from ?pat rep ((seen @ [123]) @ [123]) (x @ rest)
           = x @ replace_all_from ?pat rep (((seen @ [123]) @ [123]) @ x) rest"
    using assms(2) by (rule replace_all_from_skip)
  show ?thesis unfolding 1 2 3 by simp
qed

lemma replace_all_pieces:
  assumes "pat \<noteq> []" and "36 \<notin> set rep"
    and "\<forall>x\<in>set xs. x = pat \<or>
           (\<forall>seen rest. replace_all_from pat rep seen (x @ rest)
                         = x @ replace_all_from pat rep (seen @ x) rest)"
  shows "replace_all_from pat rep seen (concat xs)
         = concat (map (\<lambda>x. if x = pat then rep else x) xs)"
  using assms(3)
proof (induction xs arbitrary: seen)
  case Nil
  show ?case using assms(1) by (subst replace_all_from.simps) simp
next
  case (Cons x xs)
  then have IH: "replace_all_from pat rep s (concat xs)
                 = concat (map (\<lambda>x. if x = pat then rep else x) xs)" for s
    by simp
  show ?case
  proof (cases "x = pat")
    case True
    then show ?thesis
      using replace_all_from_match [OF assms(1,2), of seen "concat xs"] by (simp add: IH)
  next
    case False
    with Cons.prems
    have "replace_all_from pat rep seen (x @ concat xs)
          = x @ replace_all_from pat rep (seen @ x) (concat xs)"
      by simp
    with False show ?thesis by (simp add: IH)
  qed
qed

subsection \<open>The values have no brace and no dollar sign\<close>

lemma digits_chars: "c \<in> set (digits n) \<Longrightarrow> 48 \<le> c \<and> c \<le> 57"
proof (induction n rule: digits.induct)
  case (1 n)
  show ?case
  proof (cases "n < 10")
    case True
    with "1.prems" show ?thesis by (simp add: digits.simps [of n])
  next
    case False
    with "1.prems" have "c \<in> set (digits (n div 10)) \<or> c = 48 + n mod 10"
      by (auto simp: digits.simps [of n])
    with "1.IH" False show ?thesis by auto
  qed
qed

lemma String_of_int_chars: "c \<in> set (String_of_int i) \<Longrightarrow> c = 45 \<or> (48 \<le> c \<and> c \<le> 57)"
  using digits_chars by (auto simp: String_of_int_def split: if_splits)

lemma padStart_chars:
  "c \<in> set (padStart 2 48 s) \<Longrightarrow> c = 48 \<or> c \<in> set s"
  by (auto simp: padStart_def)

lemma formatDate_chars: "c \<in> set (formatDate d) \<Longrightarrow> c = 45 \<or> (48 \<le> c \<and> c \<le> 57)"
  using String_of_int_chars padStart_chars
  by (fastforce simp: formatDate_def str_def)

lemma at_or_undefined_cases:
  "at_or_undefined xs i \<in> set xs \<or> at_or_undefined xs i = str ''undefined''"
  by (auto simp: at_or_undefined_def nat_less_iff)

lemma name_chars:
  "x \<in> set DAYS \<or> x \<in> set MONTHS \<or> x = str ''undefined'' \<Longrightarrow> 36 \<notin> set x \<and> 123 \<notin> set x"
  by (auto simp: DAYS_def MONTHS_def str_def)

lemma dayName_chars: "36 \<notin> set (dayName d) \<and> 123 \<notin> set (dayName d)"
  using at_or_undefined_cases [of DAYS "getDay d"] name_chars [of "dayName d"]
  by (auto simp: dayName_def)

lemma formatDate_safe: "36 \<notin> set (formatDate d) \<and> 123 \<notin> set (formatDate d)"
  using formatDate_chars [of 36 d] formatDate_chars [of 123 d] by auto

lemma fullDate_safe: "36 \<notin> set (fullDate d) \<and> 123 \<notin> set (fullDate d)"
proof -
  have m: "36 \<notin> set (at_or_undefined MONTHS (getMonth d))
           \<and> 123 \<notin> set (at_or_undefined MONTHS (getMonth d))"
    using at_or_undefined_cases [of MONTHS "getMonth d"]
      name_chars [of "at_or_undefined MONTHS (getMonth d)"] by auto
  have s: "36 \<notin> set (String_of_int i) \<and> 123 \<notin> set (String_of_int i)" for i
    using String_of_int_chars [of 36 i] String_of_int_chars [of 123 i] by auto
  show ?thesis using m s by (simp add: fullDate_def str_def)
qed

subsection \<open>The three replacements\<close>

lemma no_brace_inert:
  "123 \<notin> set x \<Longrightarrow>
   replace_all_from (123 # p) rep seen (x @ rest)
   = x @ replace_all_from (123 # p) rep (seen @ x) rest"
  by (rule replace_all_from_skip)

lemma stage_one:
  assumes "\<forall>p\<in>set ps. plain p"
  shows "replace_all (str ''{{DATE}}'') (formatDate d) (concat (map (stage 0 d) ps))
         = concat (map (stage 1 d) ps)"
proof -
  let ?pat = "str ''{{DATE}}''"
  let ?rep = "formatDate d"
  have pat: "?pat = 123 # 123 # str ''DATE}}''" by (simp add: str_def)
  have each: "(stage 0 d p = ?pat
               \<or> (\<forall>seen rest. replace_all_from ?pat ?rep seen (stage 0 d p @ rest)
                     = stage 0 d p @ replace_all_from ?pat ?rep (seen @ stage 0 d p) rest))
              \<and> (if stage 0 d p = ?pat then ?rep else stage 0 d p) = stage 1 d p"
    if "plain p" for p
  proof (cases p)
    case (Text s)
    with that have n: "123 \<notin> set s" by simp
    then have "s \<noteq> ?pat" by (auto simp: str_def)
    with n Text show ?thesis unfolding pat by (simp add: no_brace_inert)
  next
    case Date
    then show ?thesis by simp
  next
    case Day_Name
    have "replace_all_from ?pat ?rep seen (str ''{{DAY_NAME}}'' @ rest)
          = str ''{{DAY_NAME}}'' @ replace_all_from ?pat ?rep (seen @ str ''{{DAY_NAME}}'') rest"
      for seen rest
      using replace_all_from_token [of "str ''DATE}}''" "str ''DAY_NAME}}''" rest ?rep seen]
      by (simp add: str_def)
    with Day_Name show ?thesis by (simp add: str_def)
  next
    case Full_Date
    have "replace_all_from ?pat ?rep seen (str ''{{FULL_DATE}}'' @ rest)
          = str ''{{FULL_DATE}}'' @ replace_all_from ?pat ?rep (seen @ str ''{{FULL_DATE}}'') rest"
      for seen rest
      using replace_all_from_token [of "str ''DATE}}''" "str ''FULL_DATE}}''" rest ?rep seen]
      by (simp add: str_def)
    with Full_Date show ?thesis by (simp add: str_def)
  qed
  have "replace_all_from ?pat ?rep [] (concat (map (stage 0 d) ps))
        = concat (map (\<lambda>x. if x = ?pat then ?rep else x) (map (stage 0 d) ps))"
  proof (rule replace_all_pieces)
    show "?pat \<noteq> []" by (simp add: str_def)
    show "36 \<notin> set ?rep" using formatDate_safe by simp
    show "\<forall>x\<in>set (map (stage 0 d) ps). x = ?pat \<or>
           (\<forall>seen rest. replace_all_from ?pat ?rep seen (x @ rest)
                         = x @ replace_all_from ?pat ?rep (seen @ x) rest)"
      using each assms by auto
  qed
  also have "\<dots> = concat (map (stage 1 d) ps)"
  proof -
    have "map (\<lambda>p. if stage 0 d p = ?pat then ?rep else stage 0 d p) ps = map (stage 1 d) ps"
      unfolding map_eq_conv using each assms by blast
    then show ?thesis by (simp only: map_map comp_def)
  qed
  finally show ?thesis by (simp add: replace_all_def)
qed

lemma stage_two:
  assumes "\<forall>p\<in>set ps. plain p"
  shows "replace_all (str ''{{DAY_NAME}}'') (dayName d) (concat (map (stage 1 d) ps))
         = concat (map (stage 2 d) ps)"
proof -
  let ?pat = "str ''{{DAY_NAME}}''"
  let ?rep = "dayName d"
  have pat: "?pat = 123 # 123 # str ''DAY_NAME}}''" by (simp add: str_def)
  have each: "(stage 1 d p = ?pat
               \<or> (\<forall>seen rest. replace_all_from ?pat ?rep seen (stage 1 d p @ rest)
                     = stage 1 d p @ replace_all_from ?pat ?rep (seen @ stage 1 d p) rest))
              \<and> (if stage 1 d p = ?pat then ?rep else stage 1 d p) = stage 2 d p"
    if "plain p" for p
  proof (cases p)
    case (Text s)
    with that have n: "123 \<notin> set s" by simp
    then have "s \<noteq> ?pat" by (auto simp: str_def)
    with n Text show ?thesis unfolding pat by (simp add: no_brace_inert)
  next
    case Date
    have n: "123 \<notin> set (formatDate d)" using formatDate_safe by simp
    then have "formatDate d \<noteq> ?pat" by (auto simp: str_def)
    with n Date show ?thesis unfolding pat by (simp add: no_brace_inert)
  next
    case Day_Name
    then show ?thesis by simp
  next
    case Full_Date
    have "replace_all_from ?pat ?rep seen (str ''{{FULL_DATE}}'' @ rest)
          = str ''{{FULL_DATE}}'' @ replace_all_from ?pat ?rep (seen @ str ''{{FULL_DATE}}'') rest"
      for seen rest
      using replace_all_from_token [of "str ''DAY_NAME}}''" "str ''FULL_DATE}}''" rest ?rep seen]
      by (simp add: str_def)
    with Full_Date show ?thesis by (simp add: str_def)
  qed
  have "replace_all_from ?pat ?rep [] (concat (map (stage 1 d) ps))
        = concat (map (\<lambda>x. if x = ?pat then ?rep else x) (map (stage 1 d) ps))"
  proof (rule replace_all_pieces)
    show "?pat \<noteq> []" by (simp add: str_def)
    show "36 \<notin> set ?rep" using dayName_chars by simp
    show "\<forall>x\<in>set (map (stage 1 d) ps). x = ?pat \<or>
           (\<forall>seen rest. replace_all_from ?pat ?rep seen (x @ rest)
                         = x @ replace_all_from ?pat ?rep (seen @ x) rest)"
      using each assms by auto
  qed
  also have "\<dots> = concat (map (stage 2 d) ps)"
  proof -
    have "map (\<lambda>p. if stage 1 d p = ?pat then ?rep else stage 1 d p) ps = map (stage 2 d) ps"
      unfolding map_eq_conv using each assms by blast
    then show ?thesis by (simp only: map_map comp_def)
  qed
  finally show ?thesis by (simp add: replace_all_def)
qed

lemma stage_three:
  assumes "\<forall>p\<in>set ps. plain p"
  shows "replace_all (str ''{{FULL_DATE}}'') (fullDate d) (concat (map (stage 2 d) ps))
         = concat (map (stage 3 d) ps)"
proof -
  let ?pat = "str ''{{FULL_DATE}}''"
  let ?rep = "fullDate d"
  have pat: "?pat = 123 # 123 # str ''FULL_DATE}}''" by (simp add: str_def)
  have each: "(stage 2 d p = ?pat
               \<or> (\<forall>seen rest. replace_all_from ?pat ?rep seen (stage 2 d p @ rest)
                     = stage 2 d p @ replace_all_from ?pat ?rep (seen @ stage 2 d p) rest))
              \<and> (if stage 2 d p = ?pat then ?rep else stage 2 d p) = stage 3 d p"
    if "plain p" for p
  proof (cases p)
    case (Text s)
    with that have n: "123 \<notin> set s" by simp
    then have "s \<noteq> ?pat" by (auto simp: str_def)
    with n Text show ?thesis unfolding pat by (simp add: no_brace_inert)
  next
    case Date
    have n: "123 \<notin> set (formatDate d)" using formatDate_safe by simp
    then have "formatDate d \<noteq> ?pat" by (auto simp: str_def)
    with n Date show ?thesis unfolding pat by (simp add: no_brace_inert)
  next
    case Day_Name
    have n: "123 \<notin> set (dayName d)" using dayName_chars by simp
    then have "dayName d \<noteq> ?pat" by (auto simp: str_def)
    with n Day_Name show ?thesis unfolding pat by (simp add: no_brace_inert)
  next
    case Full_Date
    then show ?thesis by simp
  qed
  have "replace_all_from ?pat ?rep [] (concat (map (stage 2 d) ps))
        = concat (map (\<lambda>x. if x = ?pat then ?rep else x) (map (stage 2 d) ps))"
  proof (rule replace_all_pieces)
    show "?pat \<noteq> []" by (simp add: str_def)
    show "36 \<notin> set ?rep" using fullDate_safe by simp
    show "\<forall>x\<in>set (map (stage 2 d) ps). x = ?pat \<or>
           (\<forall>seen rest. replace_all_from ?pat ?rep seen (x @ rest)
                         = x @ replace_all_from ?pat ?rep (seen @ x) rest)"
      using each assms by auto
  qed
  also have "\<dots> = concat (map (stage 3 d) ps)"
  proof -
    have "map (\<lambda>p. if stage 2 d p = ?pat then ?rep else stage 2 d p) ps = map (stage 3 d) ps"
      unfolding map_eq_conv using each assms by blast
    then show ?thesis by (simp only: map_map comp_def)
  qed
  finally show ?thesis by (simp add: replace_all_def)
qed

lemma stage_first: "stage 0 d = token"
proof
  fix p show "stage 0 d p = token p" by (cases p) simp_all
qed

lemma stage_last: "stage 3 d = filled d"
proof
  fix p show "stage 3 d p = filled d p" by (cases p) simp_all
qed

text \<open>The three replacements make the note of the template.\<close>

lemma instantiate_pieces:
  assumes "\<forall>p\<in>set ps. plain p"
  shows "instantiate (template_text ps) d = note_text d ps"
proof -
  have "instantiate (template_text ps) d
        = replace_all (str ''{{FULL_DATE}}'') (fullDate d)
            (replace_all (str ''{{DAY_NAME}}'') (dayName d)
              (replace_all (str ''{{DATE}}'') (formatDate d) (concat (map (stage 0 d) ps))))"
    by (simp add: instantiate_def template_text_def stage_first)
  also have "\<dots> = concat (map (stage 3 d) ps)"
    by (simp only: stage_one [OF assms] stage_two [OF assms] stage_three [OF assms])
  finally show ?thesis by (simp add: note_text_def stage_last)
qed

lemma skeleton_pieces: "skeleton d = note_text d builtin_template"
  by (simp add: skeleton_def note_text_def builtin_template_def)

subsection \<open>The rollover puts the items in before the first placeholder line\<close>

lemma replace_first_insert:
  assumes "pat \<noteq> []" and "36 \<notin> set (ins @ pat)"
  shows "replace_first pat (ins @ pat) s = insert_before_first pat ins s"
proof (induction s)
  case Nil
  then show ?case using assms(1) by (simp add: replace_first_def)
next
  case (Cons c cs)
  note sub = get_substitution_plain [OF assms(2)]
  show ?case
  proof (cases "prefix pat (c # cs)")
    case True
    then have "pat @ drop (length pat) (c # cs) = c # cs"
      by (metis append_eq_conv_conj prefix_def)
    with True show ?thesis by (simp add: replace_first_def sub)
  next
    case False
    show ?thesis
    proof (cases "index_of pat cs")
      case None
      with False Cons show ?thesis by (simp add: replace_first_def)
    next
      case (Some i)
      with False Cons show ?thesis by (simp add: replace_first_def sub)
    qed
  qed
qed

lemma rollover_insert:
  assumes "\<forall>x\<in>set items. 36 \<notin> set x"
  shows "rollover items c = (if items = [] then c
           else insert_before_first placeholder (terminated (map rolled_line items)) c)"
proof (cases "items = []")
  case True
  then show ?thesis by (simp add: rollover_def)
next
  case False
  then have t: "terminated (map rolled_line items) = join_nl (map rolled_line items) @ [10]"
    by (simp add: terminated_join_nl)
  have d: "36 \<notin> set (join_nl (map rolled_line items) @ str ''\<newline>- [ ] \<newline>'')"
    using assms by (rule rolled_no_dollar)
  have e: "join_nl (map rolled_line items) @ str ''\<newline>- [ ] \<newline>''
           = terminated (map rolled_line items) @ placeholder"
    by (simp add: t placeholder_def str_def)
  have "placeholder \<noteq> []" by (simp add: placeholder_def str_def)
  from replace_first_insert [OF this, of "terminated (map rolled_line items)" c] d False
  show ?thesis by (simp add: rollover_def e)
qed

text \<open>The new note of \<open>ensureDailyNote\<close> is the new note of the specification.\<close>

lemma lifecycle_new_note:
  assumes "case daily_template v of
             None \<Rightarrow> ps = builtin_template
           | Some t \<Rightarrow> t = template_text ps \<and> (\<forall>p\<in>set ps. plain p)"
    and "\<forall>x\<in>set (rolled_items v d). 36 \<notin> set x"
  shows "lifecycle_content v d = new_note d ps (rolled_items v d)"
proof -
  have base: "(case daily_template v of Some t \<Rightarrow> instantiate t d | None \<Rightarrow> skeleton d)
              = note_text d ps"
    using assms(1) by (auto simp: skeleton_pieces instantiate_pieces split: option.splits)
  have items: "(case daily_dir v (dailyPath (d - 1)) of
                  None \<Rightarrow> []
                | Some yesterdayContent \<Rightarrow> extractIncompletePriorities yesterdayContent)
               = rolled_items v d"
    by (simp add: rolled_items_def extractIncompletePriorities_scanned split: option.splits)
  show ?thesis
    unfolding lifecycle_content_def base items
    using rollover_insert [OF assms(2)] by (simp add: new_note_def)
qed

section \<open>C1: rollover of the incomplete priorities\<close>

text \<open>
  C1, as amended. Let the note of day \<open>d\<close> have, inside its Priorities section, an
  unchecked checklist line whose text, once a trailing rollover marker is stripped, is
  \<open>X\<close> and is not blank, and let it have a checked line with text \<open>Y\<close>. Let no note exist
  for day \<open>d + 1\<close>, let the first empty unchecked placeholder line of the instantiated
  template (or of the built-in skeleton) be a whole line of its Priorities section,
  followed by a further line, and let no incomplete item hold a dollar sign. Then
  \<open>ensure(d + 1)\<close> creates a note whose lines are those of the template with one
  rolled-over line for each incomplete item of yesterday, in order, inserted just before
  the placeholder line, which stays as the last of them. The inserted items are those of
  the unchecked lines only: \<open>X\<close> is one of them, the checked line gives none, and reading
  the priorities of the new note gives the unchecked item \<open>X *(rolled over)*\<close>.
\<close>

theorem rollover_into_priorities:
  assumes "daily_dir v (dailyPath (d + 1)) = None"
    and "daily_dir v (dailyPath d) = Some y"
    and "split_nl (case daily_template v of
                     Some t \<Rightarrow> instantiate t (d + 1) | None \<Rightarrow> skeleton (d + 1))
         = A1 @ h # A2 @ str ''- [ ] '' # B"
    and "B \<noteq> []"
    and "\<forall>l\<in>set A1. \<not> is_priorities_header l" and "is_priorities_header h"
    and "\<forall>l\<in>set A2. \<not> ends_priorities l"
    and "\<forall>l\<in>set (A1 @ h # A2). \<not> suffix (str ''- [ ] '') l"
    and "lx \<in> set (scanned_lines (split_nl y))" and "todoMatch lx = Some m"
    and "X = strip_rolled m" and "trim X \<noteq> []"
    and "doneMatch ly = Some Y"
    and "\<forall>p\<in>set (extractIncompletePriorities y). 36 \<notin> set p"
  shows "\<exists>new.
           ensureDailyNote v (d + 1)
             = Inr (dailyPath (d + 1), writeFileSync v (dailyPath (d + 1)) new)
           \<and> split_nl new
               = A1 @ h # A2 @ map rolled_line (extractIncompletePriorities y)
                 @ str ''- [ ] '' # B
           \<and> extractIncompletePriorities y
               = concat (map incomplete_of_line (scanned_lines (split_nl y)))
           \<and> X \<in> set (extractIncompletePriorities y)
           \<and> incomplete_of_line ly = []
           \<and> \<lparr>item_text = X @ str '' *(rolled over)*'', item_done = False\<rparr>
               \<in> set (priorities_loop False [] (split_nl new))"
proof -
  let ?items = "extractIncompletePriorities y"
  let ?C = "case daily_template v of
              Some t \<Rightarrow> instantiate t (d + 1) | None \<Rightarrow> skeleton (d + 1)"
  let ?new = "rollover ?items ?C"
  have shape: "trim m \<noteq> []" "X \<noteq> []" "\<not> is_space (hd X)" "\<forall>x\<in>set X. \<not> is_line_terminator x"
    using rolled_text_shape [OF assms(10)] assms(11,12) by simp_all
  have sc: "?items = concat (map incomplete_of_line (scanned_lines (split_nl y)))"
    by (rule extractIncompletePriorities_scanned)
  have "incomplete_of_line lx = [X]"
    using assms(10,11) shape(1) by (simp add: incomplete_of_line_def)
  then have "X \<in> set (incomplete_of_line lx)" by simp
  with assms(9) have X: "X \<in> set ?items"
    unfolding sc by auto
  then have ne: "?items \<noteq> []" by auto
  have Y: "incomplete_of_line ly = []"
    using done_is_not_todo [OF assms(13)] by (simp add: incomplete_of_line_def)
  have y': "daily_dir v (dailyPath (d + 1 - 1)) = Some y"
    using assms(2) by simp
  have e: "ensureDailyNote v (d + 1)
           = Inr (dailyPath (d + 1), writeFileSync v (dailyPath (d + 1)) ?new)"
    by (rule ensureDailyNote_rollover [OF assms(1) y'])
  have clean: "\<forall>p\<in>set ?items. 36 \<notin> set p \<and> 10 \<notin> set p"
    using assms(14) incomplete_item_no_newline by blast
  have sp: "split_nl ?C = (A1 @ h # A2) @ str ''- [ ] '' # B"
    using assms(3) by simp
  have "split_nl ?new = (A1 @ h # A2) @ map rolled_line ?items @ str ''- [ ] '' # B"
    by (rule rollover_lines [OF sp assms(4,8) ne clean])
  then have lines: "split_nl ?new = A1 @ h # A2 @ map rolled_line ?items @ str ''- [ ] '' # B"
    by simp
  from X obtain q q' where q: "?items = q @ X # q'"
    by (meson split_list)
  have l2: "A1 @ h # A2 @ map rolled_line (q @ X # q') @ str ''- [ ] '' # B = split_nl ?new"
    unfolding lines by (simp only: q)
  have "rolled_line X
        \<in> set (scanned_lines (A1 @ h # A2 @ map rolled_line (q @ X # q') @ str ''- [ ] '' # B))"
    by (rule rolled_line_in_section [OF assms(5,6,7)])
  then have "rolled_line X \<in> set (scanned_lines (split_nl ?new))"
    by (simp only: l2)
  moreover have "priority_of_line (rolled_line X)
      = [\<lparr>item_text = X @ str '' *(rolled over)*'', item_done = False\<rparr>]"
    using shape(2,3,4) by (rule priority_of_rolled_line)
  ultimately have item: "\<lparr>item_text = X @ str '' *(rolled over)*'', item_done = False\<rparr>
      \<in> set (priorities_loop False [] (split_nl ?new))"
    unfolding priorities_loop_scanned by force
  from e lines sc X Y item show ?thesis by blast
qed

text \<open>
  The theorem in a vault with no template: yesterday has the unchecked item \<open>buy milk\<close>
  and the checked item \<open>done thing\<close>, and the note of the next day is the skeleton with
  the rolled-over item before the placeholder.
\<close>

theorem rollover_into_priorities_witness:
  "ensureDailyNote
     (vault_of [(dailyPath 0, str ''## Priorities\<newline>- [ ] buy milk\<newline>- [x] done thing\<newline>## Log'')] None) 1
   = Inr (dailyPath 1,
          writeFileSync
            (vault_of [(dailyPath 0, str ''## Priorities\<newline>- [ ] buy milk\<newline>- [x] done thing\<newline>## Log'')] None)
            (dailyPath 1)
            (str ''---\<newline>date: 1970-01-02\<newline>---\<newline># Friday, January 2, 1970\<newline>\<newline>## Priorities\<newline>- [ ] buy milk *(rolled over)*\<newline>- [ ] \<newline>\<newline>## Log\<newline>\<newline>## Notes\<newline>\<newline>## Decisions\<newline>\<newline>## Learned\<newline>''))"
proof -
  let ?y = "str ''## Priorities\<newline>- [ ] buy milk\<newline>- [x] done thing\<newline>## Log''"
  let ?v = "vault_of [(dailyPath 0, ?y)] None"
  let ?A1 = "[str ''---'', str ''date: 1970-01-02'', str ''---'', str ''# Friday, January 2, 1970'', []]"
  let ?B = "[[], str ''## Log'', [], str ''## Notes'', [], str ''## Decisions'', [],
             str ''## Learned'', []]"
  have h1: "daily_dir ?v (dailyPath (0 + 1)) = None"
    using day_one_path by (simp add: vault_of_def)
  have h2: "daily_dir ?v (dailyPath 0) = Some ?y"
    by (simp add: vault_of_def)
  have h3: "split_nl (case daily_template ?v of
                     Some t \<Rightarrow> instantiate t (0 + 1) | None \<Rightarrow> skeleton (0 + 1))
         = ?A1 @ str ''## Priorities'' # [] @ str ''- [ ] '' # ?B"
    by (simp add: vault_of_def skeleton_day_one) (simp add: str_def)
  have h4: "?B \<noteq> []" by simp
  have h5: "\<forall>l\<in>set ?A1. \<not> is_priorities_header l"
    by (simp add: is_priorities_header_def str_def)
  have h6: "is_priorities_header (str ''## Priorities'')"
    by (simp add: is_priorities_header_def)
  have h7: "\<forall>l\<in>set []. \<not> ends_priorities l" by simp
  have h8: "\<forall>l\<in>set (?A1 @ str ''## Priorities'' # []). \<not> suffix (str ''- [ ] '') l"
    by (simp add: str_def suffix_def)
  have h9: "str ''- [ ] buy milk'' \<in> set (scanned_lines (split_nl ?y))"
    by (simp add: scanned_lines_def is_priorities_header_def ends_priorities_def str_def)
  have h10: "todoMatch (str ''- [ ] buy milk'') = Some (str ''buy milk'')"
    by (simp add: checklist_eval str_def)
  have h11: "str ''buy milk'' = strip_rolled (str ''buy milk'')"
    by (simp add: checklist_eval str_def)
  have h12: "trim (str ''buy milk'') \<noteq> []"
    by (simp add: checklist_eval str_def)
  have h13: "doneMatch (str ''- [x] done thing'') = Some (str ''done thing'')"
    by (simp add: checklist_eval str_def)
  have items: "extractIncompletePriorities ?y = [str ''buy milk'']"
    by (simp add: extractIncompletePriorities_def checklist_eval str_def)
  have h14: "\<forall>p\<in>set (extractIncompletePriorities ?y). 36 \<notin> set p"
    unfolding items by (simp add: str_def)
  from rollover_into_priorities [OF h1 h2 h3 h4 h5 h6 h7 h8 h9 h10 h11 h12 h13 h14]
  obtain new where
    e: "ensureDailyNote ?v (0 + 1) = Inr (dailyPath (0 + 1), writeFileSync ?v (dailyPath (0 + 1)) new)"
    and l: "split_nl new = ?A1 @ str ''## Priorities'' # [] @ map rolled_line (extractIncompletePriorities ?y)
                 @ str ''- [ ] '' # ?B"
    by (elim exE conjE) (rule that; assumption)
  have "new = join_nl (split_nl new)" by (simp add: join_split_nl)
  also have "\<dots> = str ''---\<newline>date: 1970-01-02\<newline>---\<newline># Friday, January 2, 1970\<newline>\<newline>## Priorities\<newline>- [ ] buy milk *(rolled over)*\<newline>- [ ] \<newline>\<newline>## Log\<newline>\<newline>## Notes\<newline>\<newline>## Decisions\<newline>\<newline>## Learned\<newline>''"
    unfolding l items by (simp add: rolled_line_def str_def)
  finally show ?thesis using e by simp
qed

text \<open>
  C1 as stated fails: this template has exactly one empty unchecked placeholder line, and
  it stands under \<open>## Inbox\<close>. The item of yesterday is rolled over to that place, and the
  Priorities section of the new note holds no item.
\<close>

theorem rollover_into_priorities_counterexample:
  "ensureDailyNote
     (vault_of [(dailyPath 0, str ''## Priorities\<newline>- [ ] buy milk\<newline>- [x] done thing\<newline>## Log'')]
        (Some (str ''## Inbox\<newline>- [ ] \<newline>## Priorities\<newline>\<newline>## Log\<newline>''))) 1
   = Inr (dailyPath 1,
          writeFileSync
            (vault_of [(dailyPath 0, str ''## Priorities\<newline>- [ ] buy milk\<newline>- [x] done thing\<newline>## Log'')]
               (Some (str ''## Inbox\<newline>- [ ] \<newline>## Priorities\<newline>\<newline>## Log\<newline>'')))
            (dailyPath 1)
            (str ''## Inbox\<newline>- [ ] buy milk *(rolled over)*\<newline>- [ ] \<newline>## Priorities\<newline>\<newline>## Log\<newline>''))
   \<and> priorities_loop False []
        (split_nl (str ''## Inbox\<newline>- [ ] buy milk *(rolled over)*\<newline>- [ ] \<newline>## Priorities\<newline>\<newline>## Log\<newline>''))
     = []"
proof -
  let ?y = "str ''## Priorities\<newline>- [ ] buy milk\<newline>- [x] done thing\<newline>## Log''"
  let ?t = "str ''## Inbox\<newline>- [ ] \<newline>## Priorities\<newline>\<newline>## Log\<newline>''"
  let ?v = "vault_of [(dailyPath 0, ?y)] (Some ?t)"
  have a: "daily_dir ?v (dailyPath 1) = None"
    using day_one_path by (simp add: vault_of_def)
  have b: "daily_dir ?v (dailyPath (1 - 1)) = Some ?y"
    by (simp add: vault_of_def)
  have items: "extractIncompletePriorities ?y = [str ''buy milk'']"
    by (simp add: extractIncompletePriorities_def checklist_eval str_def)
  have t: "instantiate ?t 1 = ?t"
    by (rule instantiate_plain) (simp add: str_def)
  have r: "rollover [str ''buy milk''] ?t
           = str ''## Inbox\<newline>- [ ] buy milk *(rolled over)*\<newline>- [ ] \<newline>## Priorities\<newline>\<newline>## Log\<newline>''"
    by (simp add: rollover_def replace_first_def placeholder_def rolled_line_def str_def)
  have 1: "ensureDailyNote ?v 1 = Inr (dailyPath 1, writeFileSync ?v (dailyPath 1)
      (str ''## Inbox\<newline>- [ ] buy milk *(rolled over)*\<newline>- [ ] \<newline>## Priorities\<newline>\<newline>## Log\<newline>''))"
    unfolding ensureDailyNote_rollover [OF a b] items
    by (simp add: vault_of_def t r)
  have 2: "priorities_loop False []
        (split_nl (str ''## Inbox\<newline>- [ ] buy milk *(rolled over)*\<newline>- [ ] \<newline>## Priorities\<newline>\<newline>## Log\<newline>''))
     = []"
    by (simp add: checklist_eval str_def)
  from 1 2 show ?thesis by (rule conjI)
qed

section \<open>C2: \<open>appendToSection\<close> with and without its header\<close>

text \<open>
  C2, as amended. Take an existing daily note for the date \<open>d\<close>, a section name \<open>S\<close> and a
  line \<open>L\<close>. If no line of the note starts with \<open>## S\<close>, \<open>appendToSection(S, L, d)\<close> returns
  without an error and leaves the whole vault as it was: the note is not written, and \<open>L\<close>
  is not appended at its end. If some line starts with \<open>## S\<close>, the note is written with \<open>L\<close>
  inserted after the first such line and after the blank and HTML-comment lines that
  follow it, every original line being kept in its place relative to the others.
\<close>

theorem appendToSection_by_prefix:
  assumes "daily_dir v (dailyPath d) = Some c"
  shows "((\<forall>l\<in>set (split_nl c). \<not> prefix (str ''## '' @ S) l)
            \<longrightarrow> appendToSection v S L d = Inr v)
       \<and> ((\<exists>l\<in>set (split_nl c). prefix (str ''## '' @ S) l)
            \<longrightarrow> (\<exists>pre h post.
                   split_nl c = pre @ h # post
                   \<and> (\<forall>l\<in>set pre. \<not> prefix (str ''## '' @ S) l)
                   \<and> prefix (str ''## '' @ S) h
                   \<and> appendToSection v S L d =
                       Inr (writeFileSync v (dailyPath d)
                              (join_nl (pre @ h # takeWhile skippable post
                                        @ L # dropWhile skippable post)))))"
proof (intro conjI impI)
  assume "\<forall>l\<in>set (split_nl c). \<not> prefix (str ''## '' @ S) l"
  then have "find_insert (str ''## '' @ S) (split_nl c) = None"
    by (simp add: find_insert_None)
  then show "appendToSection v S L d = Inr v"
    by (simp add: appendToSection_existing [OF assms])
next
  assume "\<exists>l\<in>set (split_nl c). prefix (str ''## '' @ S) l"
  then obtain pre h post where sp: "split_nl c = pre @ h # post"
    and pre: "\<forall>l\<in>set pre. \<not> prefix (str ''## '' @ S) l"
    and h: "prefix (str ''## '' @ S) h"
    using first_header_split [of "split_nl c" "prefix (str ''## '' @ S)"] by blast
  have "find_insert (str ''## '' @ S) (split_nl c)
        = Some (Suc (length pre + skip_count (str ''## '' @ S) post))"
    using find_insert_Some [OF pre h] sp by simp
  then have "appendToSection v S L d =
      Inr (writeFileSync v (dailyPath d)
            (join_nl (pre @ h # takeWhile skippable post @ L # dropWhile skippable post)))"
    using sp by (simp add: appendToSection_existing [OF assms] splice_found)
  with sp pre h
  show "\<exists>pre h post.
          split_nl c = pre @ h # post
          \<and> (\<forall>l\<in>set pre. \<not> prefix (str ''## '' @ S) l)
          \<and> prefix (str ''## '' @ S) h
          \<and> appendToSection v S L d =
              Inr (writeFileSync v (dailyPath d)
                     (join_nl (pre @ h # takeWhile skippable post
                               @ L # dropWhile skippable post)))"
    by blast
qed

text \<open>The theorem at a note with a \<open>Log\<close> section and no \<open>Notes\<close> section: appending to
  \<open>Notes\<close> changes nothing, and appending to \<open>Log\<close> has a decomposition as stated.\<close>

theorem appendToSection_by_prefix_witness:
  "appendToSection (vault_of [(dailyPath 0, str ''## Log\<newline>\<newline>first'')] None)
     (str ''Notes'') (str ''- x'') 0
   = Inr (vault_of [(dailyPath 0, str ''## Log\<newline>\<newline>first'')] None)
   \<and> (\<exists>pre h post.
         split_nl (str ''## Log\<newline>\<newline>first'') = pre @ h # post
         \<and> (\<forall>l\<in>set pre. \<not> prefix (str ''## '' @ str ''Log'') l)
         \<and> prefix (str ''## '' @ str ''Log'') h
         \<and> appendToSection (vault_of [(dailyPath 0, str ''## Log\<newline>\<newline>first'')] None)
             (str ''Log'') (str ''- x'') 0 =
             Inr (writeFileSync (vault_of [(dailyPath 0, str ''## Log\<newline>\<newline>first'')] None)
                    (dailyPath 0)
                    (join_nl (pre @ h # takeWhile skippable post
                              @ str ''- x'' # dropWhile skippable post))))"
proof -
  let ?c = "str ''## Log\<newline>\<newline>first''"
  let ?v = "vault_of [(dailyPath 0, ?c)] None"
  have a: "daily_dir ?v (dailyPath 0) = Some ?c"
    by (simp add: vault_of_def)
  have absent: "\<forall>l\<in>set (split_nl ?c). \<not> prefix (str ''## '' @ str ''Notes'') l"
    by (simp add: str_def)
  have present: "\<exists>l\<in>set (split_nl ?c). prefix (str ''## '' @ str ''Log'') l"
    by (simp add: str_def)
  from appendToSection_by_prefix [OF a, of "str ''Notes''" "str ''- x''"] absent
  have 1: "appendToSection ?v (str ''Notes'') (str ''- x'') 0 = Inr ?v"
    by blast
  from appendToSection_by_prefix [OF a, of "str ''Log''" "str ''- x''"] present
  have 2: "\<exists>pre h post.
         split_nl ?c = pre @ h # post
         \<and> (\<forall>l\<in>set pre. \<not> prefix (str ''## '' @ str ''Log'') l)
         \<and> prefix (str ''## '' @ str ''Log'') h
         \<and> appendToSection ?v (str ''Log'') (str ''- x'') 0 =
             Inr (writeFileSync ?v (dailyPath 0)
                    (join_nl (pre @ h # takeWhile skippable post
                              @ str ''- x'' # dropWhile skippable post)))"
    by blast
  from 1 2 show ?thesis by (rule conjI)
qed

text \<open>
  C2 as stated fails when a header is a line equal to \<open>## S\<close>: no line of this note is the
  header \<open>## Notes\<close>, and yet the call for \<open>Notes\<close> writes the note.
\<close>

theorem appendToSection_by_prefix_counterexample:
  "\<not> (str ''## Notes'' \<in> set (split_nl (str ''# Day\<newline>## Notes and ideas\<newline>idea'')))
   \<and> appendToSection (vault_of [(dailyPath 0, str ''# Day\<newline>## Notes and ideas\<newline>idea'')] None)
       (str ''Notes'') (str ''- x'') 0
     = Inr (writeFileSync (vault_of [(dailyPath 0, str ''# Day\<newline>## Notes and ideas\<newline>idea'')] None)
              (dailyPath 0) (str ''# Day\<newline>## Notes and ideas\<newline>- x\<newline>idea''))
   \<and> daily_dir (writeFileSync (vault_of [(dailyPath 0, str ''# Day\<newline>## Notes and ideas\<newline>idea'')] None)
              (dailyPath 0) (str ''# Day\<newline>## Notes and ideas\<newline>- x\<newline>idea'')) (dailyPath 0)
     \<noteq> daily_dir (vault_of [(dailyPath 0, str ''# Day\<newline>## Notes and ideas\<newline>idea'')] None) (dailyPath 0)"
proof -
  let ?c = "str ''# Day\<newline>## Notes and ideas\<newline>idea''"
  let ?v = "vault_of [(dailyPath 0, ?c)] None"
  have a: "daily_dir ?v (dailyPath 0) = Some ?c"
    by (simp add: vault_of_def)
  have 1: "\<not> (str ''## Notes'' \<in> set (split_nl ?c))"
    by (simp add: str_def)
  have "appendToSection ?v (str ''Notes'') (str ''- x'') 0
        = (case find_insert (str ''## '' @ str ''Notes'') (split_nl ?c) of
             None \<Rightarrow> Inr ?v
           | Some i \<Rightarrow> Inr (writeFileSync ?v (dailyPath 0)
                 (join_nl (splice_in i (str ''- x'') (split_nl ?c)))))"
    by (rule appendToSection_existing [OF a])
  also have "\<dots> = Inr (writeFileSync ?v (dailyPath 0) (str ''# Day\<newline>## Notes and ideas\<newline>- x\<newline>idea''))"
    by (simp add: str_def splice_in_def trim_def is_space_def)
  finally have 2: "appendToSection ?v (str ''Notes'') (str ''- x'') 0
        = Inr (writeFileSync ?v (dailyPath 0) (str ''# Day\<newline>## Notes and ideas\<newline>- x\<newline>idea''))" .
  have 3: "daily_dir (writeFileSync ?v (dailyPath 0) (str ''# Day\<newline>## Notes and ideas\<newline>- x\<newline>idea'')) (dailyPath 0)
     \<noteq> daily_dir ?v (dailyPath 0)"
    by (simp add: vault_of_def str_def)
  from 1 2 3 show ?thesis by simp
qed

section \<open>C3: reading the priorities\<close>

text \<open>
  C3, as amended. For an existing daily note, \<open>getPriorities\<close> scans the lines after the
  first line that starts with \<open>## Priorities\<close> and before the next line that starts with
  \<open>## \<close> but not with \<open>## Priorities\<close>; a further line that starts with \<open>## Priorities\<close> is
  passed over, it is not read and it does not end the scan. Each scanned line gives, in
  order: \<open>{text, done: true}\<close> when it matches the checked pattern, whatever the text,
  blank text included; otherwise \<open>{text, done: false}\<close> when it matches the unchecked
  pattern with a text that is not blank; otherwise nothing. A line \<open>- [x] text\<close> or
  \<open>- [X] text\<close> matches the checked pattern with that text; the pattern needs at least one
  character after the white space that follows the mark, so \<open>- [x]\<close> followed by two
  spaces has the text of one space, and \<open>- [x]\<close> followed by one space does not match.
\<close>

theorem getPriorities_scanned_lines:
  assumes "daily_dir v (dailyPath d) = Some c"
  shows "getPriorities v d = Inr (concat (map priority_of_line (scanned_lines (split_nl c))), v)
       \<and> (\<forall>l m. doneMatch l = Some m \<longrightarrow>
             priority_of_line l = [\<lparr>item_text = m, item_done = True\<rparr>])
       \<and> (\<forall>l m. doneMatch l = None \<and> todoMatch l = Some m \<and> trim m \<noteq> [] \<longrightarrow>
             priority_of_line l = [\<lparr>item_text = m, item_done = False\<rparr>])
       \<and> (\<forall>l. doneMatch l = None \<and> (\<forall>m. todoMatch l = Some m \<longrightarrow> trim m = []) \<longrightarrow>
             priority_of_line l = [])
       \<and> (\<forall>x t. (x = 120 \<or> x = 88) \<and> t \<noteq> [] \<and> \<not> is_space (hd t)
                  \<and> (\<forall>y\<in>set t. \<not> is_line_terminator y) \<longrightarrow>
             doneMatch (str ''- ['' @ x # str ''] '' @ t) = Some t)
       \<and> doneMatch (str ''- [x]  '') = Some (str '' '')
       \<and> doneMatch (str ''- [x] '') = None"
proof (intro conjI allI impI)
  show "getPriorities v d = Inr (concat (map priority_of_line (scanned_lines (split_nl c))), v)"
    using assms
    by (simp add: getPriorities_def readDailyNote_def ensureDailyNote_existing read_existing
        priorities_loop_scanned)
next
  fix l m assume "doneMatch l = Some m"
  then show "priority_of_line l = [\<lparr>item_text = m, item_done = True\<rparr>]"
    by (simp add: priority_of_line_def)
next
  fix l m assume "doneMatch l = None \<and> todoMatch l = Some m \<and> trim m \<noteq> []"
  then show "priority_of_line l = [\<lparr>item_text = m, item_done = False\<rparr>]"
    by (simp add: priority_of_line_def)
next
  fix l assume "doneMatch l = None \<and> (\<forall>m. todoMatch l = Some m \<longrightarrow> trim m = [])"
  then show "priority_of_line l = []"
    by (cases "todoMatch l") (simp_all add: priority_of_line_def)
next
  fix x :: nat and t :: jstring
  assume a: "(x = 120 \<or> x = 88) \<and> t \<noteq> [] \<and> \<not> is_space (hd t)
             \<and> (\<forall>y\<in>set t. \<not> is_line_terminator y)"
  have "checklist_match (\<lambda>c. c = 120 \<or> c = 88) (45 # [32] @ 91 # x # 93 # [32] @ t) = Some t"
    using a by (intro checklist_match_shape) (simp_all add: is_space_def)
  then show "doneMatch (str ''- ['' @ x # str ''] '' @ t) = Some t"
    by (simp add: doneMatch_def str_def)
next
  show "doneMatch (str ''- [x]  '') = Some (str '' '')"
    by (simp add: doneMatch_def checklist_match_def str_def is_space_def is_line_terminator_def
        Let_def)
next
  show "doneMatch (str ''- [x] '') = None"
    by (simp add: doneMatch_def checklist_match_def str_def is_space_def is_line_terminator_def
        Let_def)
qed

text \<open>The theorem at a note with a checked item, an unchecked one, an empty placeholder
  and a second header that starts with \<open>## Priorities\<close>.\<close>

theorem getPriorities_scanned_lines_witness:
  "getPriorities
     (vault_of [(dailyPath 0,
        str ''# Day\<newline>## Priorities\<newline>- [X] ship it\<newline>- [ ] buy milk\<newline>- [ ] \<newline>## Priorities later\<newline>- [ ] rest\<newline>## Log\<newline>- [ ] no'')] None) 0
   = Inr ([\<lparr>item_text = str ''ship it'', item_done = True\<rparr>,
           \<lparr>item_text = str ''buy milk'', item_done = False\<rparr>,
           \<lparr>item_text = str ''rest'', item_done = False\<rparr>],
          vault_of [(dailyPath 0,
        str ''# Day\<newline>## Priorities\<newline>- [X] ship it\<newline>- [ ] buy milk\<newline>- [ ] \<newline>## Priorities later\<newline>- [ ] rest\<newline>## Log\<newline>- [ ] no'')] None)"
proof -
  let ?c = "str ''# Day\<newline>## Priorities\<newline>- [X] ship it\<newline>- [ ] buy milk\<newline>- [ ] \<newline>## Priorities later\<newline>- [ ] rest\<newline>## Log\<newline>- [ ] no''"
  let ?v = "vault_of [(dailyPath 0, ?c)] None"
  have a: "daily_dir ?v (dailyPath 0) = Some ?c" by (simp add: vault_of_def)
  note t = getPriorities_scanned_lines [OF a]
  have s: "scanned_lines (split_nl ?c)
           = [str ''- [X] ship it'', str ''- [ ] buy milk'', str ''- [ ] '', str ''- [ ] rest'']"
    by (simp add: scanned_lines_def is_priorities_header_def ends_priorities_def str_def)
  from t have shape: "\<forall>x t. (x = 120 \<or> x = 88) \<and> t \<noteq> [] \<and> \<not> is_space (hd t)
                  \<and> (\<forall>y\<in>set t. \<not> is_line_terminator y) \<longrightarrow>
             doneMatch (str ''- ['' @ x # str ''] '' @ t) = Some t"
    by (elim conjE)
  have "(88 = (120::nat) \<or> 88 = (88::nat)) \<and> str ''ship it'' \<noteq> [] \<and> \<not> is_space (hd (str ''ship it''))
        \<and> (\<forall>y\<in>set (str ''ship it''). \<not> is_line_terminator y)"
    by (simp add: str_def is_space_def is_line_terminator_def)
  with shape have "doneMatch (str ''- ['' @ 88 # str ''] '' @ str ''ship it'') = Some (str ''ship it'')"
    by blast
  then have d1: "doneMatch (str ''- [X] ship it'') = Some (str ''ship it'')"
    by (simp add: str_def)
  from t have done_rule: "\<forall>l m. doneMatch l = Some m \<longrightarrow>
             priority_of_line l = [\<lparr>item_text = m, item_done = True\<rparr>]"
    by (elim conjE)
  with d1 have p1: "priority_of_line (str ''- [X] ship it'')
      = [\<lparr>item_text = str ''ship it'', item_done = True\<rparr>]"
    by blast
  from t have todo_rule: "\<forall>l m. doneMatch l = None \<and> todoMatch l = Some m \<and> trim m \<noteq> [] \<longrightarrow>
             priority_of_line l = [\<lparr>item_text = m, item_done = False\<rparr>]"
    by (elim conjE)
  have "doneMatch (str ''- [ ] buy milk'') = None
        \<and> todoMatch (str ''- [ ] buy milk'') = Some (str ''buy milk'')
        \<and> trim (str ''buy milk'') \<noteq> []"
    by (simp add: checklist_eval str_def)
  with todo_rule have p2: "priority_of_line (str ''- [ ] buy milk'')
      = [\<lparr>item_text = str ''buy milk'', item_done = False\<rparr>]"
    by blast
  have "doneMatch (str ''- [ ] rest'') = None
        \<and> todoMatch (str ''- [ ] rest'') = Some (str ''rest'')
        \<and> trim (str ''rest'') \<noteq> []"
    by (simp add: checklist_eval str_def)
  with todo_rule have p4: "priority_of_line (str ''- [ ] rest'')
      = [\<lparr>item_text = str ''rest'', item_done = False\<rparr>]"
    by blast
  from t have none_rule: "\<forall>l. doneMatch l = None \<and> (\<forall>m. todoMatch l = Some m \<longrightarrow> trim m = []) \<longrightarrow>
             priority_of_line l = []"
    by (elim conjE)
  have "doneMatch (str ''- [ ] '') = None \<and> (\<forall>m. todoMatch (str ''- [ ] '') = Some m \<longrightarrow> trim m = [])"
    by (simp add: checklist_eval str_def)
  with none_rule have p3: "priority_of_line (str ''- [ ] '') = []"
    by blast
  from t
  have "getPriorities ?v 0 = Inr (concat (map priority_of_line (scanned_lines (split_nl ?c))), ?v)"
    by (rule conjunct1)
  then show ?thesis unfolding s by (simp add: p1 p2 p3 p4)
qed

text \<open>
  C3 as stated fails: the item \<open>rest\<close> is returned although its line stands after
  \<open>## Priorities later\<close>, the next level-2 header after the Priorities header, and so
  outside the section of the specification.
\<close>

theorem getPriorities_scanned_lines_counterexample:
  "getPriorities
     (vault_of [(dailyPath 0,
        str ''## Priorities\<newline>- [ ] buy milk\<newline>## Priorities later\<newline>- [ ] rest'')] None) 0
   = Inr ([\<lparr>item_text = str ''buy milk'', item_done = False\<rparr>,
           \<lparr>item_text = str ''rest'', item_done = False\<rparr>],
          vault_of [(dailyPath 0,
        str ''## Priorities\<newline>- [ ] buy milk\<newline>## Priorities later\<newline>- [ ] rest'')] None)
   \<and> section_body (str ''Priorities'')
        (split_nl (str ''## Priorities\<newline>- [ ] buy milk\<newline>## Priorities later\<newline>- [ ] rest''))
     = [str ''- [ ] buy milk'']"
proof -
  let ?c = "str ''## Priorities\<newline>- [ ] buy milk\<newline>## Priorities later\<newline>- [ ] rest''"
  let ?v = "vault_of [(dailyPath 0, ?c)] None"
  have a: "daily_dir ?v (dailyPath 0) = Some ?c" by (simp add: vault_of_def)
  have "getPriorities ?v 0 = Inr (priorities_loop False [] (split_nl ?c), ?v)"
    using a
    by (simp add: getPriorities_def readDailyNote_def ensureDailyNote_existing read_existing)
  also have "priorities_loop False [] (split_nl ?c)
      = [\<lparr>item_text = str ''buy milk'', item_done = False\<rparr>,
         \<lparr>item_text = str ''rest'', item_done = False\<rparr>]"
    by (simp add: doneMatch_def todoMatch_def checklist_match_def str_def
        is_space_def is_line_terminator_def trim_def Let_def)
  finally have 1: "getPriorities ?v 0
      = Inr ([\<lparr>item_text = str ''buy milk'', item_done = False\<rparr>,
              \<lparr>item_text = str ''rest'', item_done = False\<rparr>], ?v)" .
  have 2: "section_body (str ''Priorities'') (split_nl ?c) = [str ''- [ ] buy milk'']"
    by (simp add: section_body_def str_def)
  from 1 2 show ?thesis by (rule conjI)
qed

section \<open>C4: the log entry and its fallback\<close>

text \<open>
  What \<open>appendToLog(text, d)\<close> does, for every vault. The entry is \<open>- HH:MM\<close> with the
  hours and minutes of the wall clock on two digits, a space, the three characters of the
  source's literal, a space, and the text. The function ensures the note of \<open>d\<close> and then
  works on its content \<open>c\<close>: the entry goes under the first line that starts with
  \<open>## Log\<close>, whatever follows these characters on the line, after the blank and comment
  lines below it; when no line of the note starts with \<open>## Log\<close>, the entry is not
  dropped but appended at the very end of the note, on a line of its own.
\<close>

lemma appendToLog_insert_or_append:
  "(getHours now < 24 \<and> getMinutes now < 60 \<longrightarrow>
      logEntry now entry =
        [45, 32, 48 + getHours now div 10, 48 + getHours now mod 10, 58,
         48 + getMinutes now div 10, 48 + getMinutes now mod 10, 32, 226, 8364, 8221, 32] @ entry)
   \<and> (\<exists>v1 c.
         ensureDailyNote v d = Inr (dailyPath d, v1) \<and> daily_dir v1 (dailyPath d) = Some c
         \<and> ((\<forall>l\<in>set (split_nl c). \<not> prefix (str ''## Log'') l) \<longrightarrow>
              appendToLog v now entry d =
                Inr (writeFileSync v1 (dailyPath d) (c @ [10] @ logEntry now entry @ [10])))
         \<and> (\<forall>pre h post.
               split_nl c = pre @ h # post
               \<and> (\<forall>l\<in>set pre. \<not> prefix (str ''## Log'') l) \<and> prefix (str ''## Log'') h \<longrightarrow>
               appendToLog v now entry d =
                 Inr (writeFileSync v1 (dailyPath d)
                        (join_nl (pre @ h # takeWhile skippable post
                                  @ logEntry now entry # dropWhile skippable post)))))"
proof (intro conjI impI)
  assume "getHours now < 24 \<and> getMinutes now < 60"
  then have "getHours now < 100" "getMinutes now < 100" by simp_all
  then show "logEntry now entry =
        [45, 32, 48 + getHours now div 10, 48 + getHours now mod 10, 58,
         48 + getMinutes now div 10, 48 + getMinutes now mod 10, 32, 226, 8364, 8221, 32] @ entry"
    by (simp add: logEntry_def pad_two_digits str_def)
next
  obtain v1 c where e: "ensureDailyNote v d = Inr (dailyPath d, v1)"
    and c: "daily_dir v1 (dailyPath d) = Some c"
    using ensureDailyNote_total by blast
  have r: "readFileSync v1 (dailyPath d) = Inr c"
    using c by (rule read_existing)
  have absent: "appendToLog v now entry d =
      Inr (writeFileSync v1 (dailyPath d) (c @ [10] @ logEntry now entry @ [10]))"
    if "\<forall>l\<in>set (split_nl c). \<not> prefix (str ''## Log'') l"
  proof -
    from that have "find_insert (str ''## Log'') (split_nl c) = None"
      by (simp add: find_insert_None)
    then show ?thesis by (simp add: appendToLog_def e r str_def)
  qed
  have present: "appendToLog v now entry d =
      Inr (writeFileSync v1 (dailyPath d)
            (join_nl (pre @ h # takeWhile skippable post
                      @ logEntry now entry # dropWhile skippable post)))"
    if "split_nl c = pre @ h # post
        \<and> (\<forall>l\<in>set pre. \<not> prefix (str ''## Log'') l) \<and> prefix (str ''## Log'') h"
    for pre h post
  proof -
    from that have sp: "split_nl c = pre @ h # post"
      and pre: "\<forall>l\<in>set pre. \<not> prefix (str ''## Log'') l"
      and h: "prefix (str ''## Log'') h" by simp_all
    have "find_insert (str ''## Log'') (split_nl c)
          = Some (Suc (length pre + skip_count (str ''## Log'') post))"
      using find_insert_Some [OF pre h] sp by simp
    then show ?thesis using sp by (simp add: appendToLog_def e r splice_found)
  qed
  show "\<exists>v1 c.
         ensureDailyNote v d = Inr (dailyPath d, v1) \<and> daily_dir v1 (dailyPath d) = Some c
         \<and> ((\<forall>l\<in>set (split_nl c). \<not> prefix (str ''## Log'') l) \<longrightarrow>
              appendToLog v now entry d =
                Inr (writeFileSync v1 (dailyPath d) (c @ [10] @ logEntry now entry @ [10])))
         \<and> (\<forall>pre h post.
               split_nl c = pre @ h # post
               \<and> (\<forall>l\<in>set pre. \<not> prefix (str ''## Log'') l) \<and> prefix (str ''## Log'') h \<longrightarrow>
               appendToLog v now entry d =
                 Inr (writeFileSync v1 (dailyPath d)
                        (join_nl (pre @ h # takeWhile skippable post
                                  @ logEntry now entry # dropWhile skippable post))))"
  proof (rule exI [of _ v1], rule exI [of _ c], intro conjI impI allI)
    show "ensureDailyNote v d = Inr (dailyPath d, v1)" by (rule e)
    show "daily_dir v1 (dailyPath d) = Some c" by (rule c)
    show "appendToLog v now entry d =
        Inr (writeFileSync v1 (dailyPath d) (c @ [10] @ logEntry now entry @ [10]))"
      if "\<forall>l\<in>set (split_nl c). \<not> prefix (str ''## Log'') l"
      using that by (rule absent)
    show "appendToLog v now entry d =
        Inr (writeFileSync v1 (dailyPath d)
              (join_nl (pre @ h # takeWhile skippable post
                        @ logEntry now entry # dropWhile skippable post)))"
      if "split_nl c = pre @ h # post
          \<and> (\<forall>l\<in>set pre. \<not> prefix (str ''## Log'') l) \<and> prefix (str ''## Log'') h"
      for pre h post
      using that by (rule present)
  qed
qed

text \<open>
  C4. The claim has the entry as \<open>- HH:MM\<close>, an em dash (U+2014) between two spaces, and
  the text. At five past nine, for the text \<open>hi\<close> and a note that has the header
  \<open>## Log\<close>, the code writes something else between the two spaces: the three code
  units 226, 8364 and 8221 of its literal. The entry is placed as the claim says, under
  the header; only the separator differs.
\<close>

theorem appendToLog_separator:
  "logEntry \<lparr>getHours = 9, getMinutes = 5\<rparr> (str ''hi'')
     = str ''- 09:05 '' @ [226, 8364, 8221] @ str '' hi''
   \<and> logEntry \<lparr>getHours = 9, getMinutes = 5\<rparr> (str ''hi'')
       \<noteq> str ''- 09:05 '' @ [8212] @ str '' hi''
   \<and> appendToLog (vault_of [(dailyPath 0, str ''## Log\<newline>old'')] None)
        \<lparr>getHours = 9, getMinutes = 5\<rparr> (str ''hi'') 0
     = Inr (writeFileSync (vault_of [(dailyPath 0, str ''## Log\<newline>old'')] None) (dailyPath 0)
              (str ''## Log\<newline>- 09:05 '' @ [226, 8364, 8221] @ str '' hi\<newline>old''))"
proof -
  let ?now = "\<lparr>getHours = 9, getMinutes = 5\<rparr>"
  let ?c = "str ''## Log\<newline>old''"
  let ?v = "vault_of [(dailyPath 0, ?c)] None"
  have e: "logEntry ?now x = [45, 32, 48, 57, 58, 48, 53, 32, 226, 8364, 8221, 32] @ x" for x
    by (simp add: logEntry_def pad_two_digits str_def)
  have a: "daily_dir ?v (dailyPath 0) = Some ?c" by (simp add: vault_of_def)
  have 1: "logEntry ?now (str ''hi'') = str ''- 09:05 '' @ [226, 8364, 8221] @ str '' hi''"
    by (simp add: e str_def)
  have 2: "logEntry ?now (str ''hi'') \<noteq> str ''- 09:05 '' @ [8212] @ str '' hi''"
    by (simp add: e str_def)
  have 3: "appendToLog ?v ?now (str ''hi'') 0
      = Inr (writeFileSync ?v (dailyPath 0)
               (str ''## Log\<newline>- 09:05 '' @ [226, 8364, 8221] @ str '' hi\<newline>old''))"
    unfolding appendToLog_existing [OF a] e
    by (simp add: str_def splice_in_def trim_def is_space_def)
  from 1 2 3 show ?thesis by (intro conjI)
qed

section \<open>C5: parsing the response of the deep extraction\<close>

lemma parse_number_no_start:
  "c \<noteq> 45 \<Longrightarrow> \<not> is_digit c \<Longrightarrow> parse_number (c # r) = None"
  by (simp add: parse_number_def Let_def)

lemma parse_value_no_start:
  assumes "skip_ws s = c # r" and "\<not> starts_json_value c"
  shows "parse_value n s = None"
proof -
  from assms(2) have c: "c \<noteq> 123" "c \<noteq> 91" "c \<noteq> 34" "c \<noteq> 116" "c \<noteq> 102" "c \<noteq> 110"
    "c \<noteq> 45" "\<not> is_digit c"
    by (auto simp: starts_json_value_def str_def is_digit_def)
  have "parse_number (c # r) = None"
    using c(7,8) by (rule parse_number_no_start)
  with c show ?thesis
    by (subst parse_value.simps) (simp add: assms(1) str_def)
qed

lemma parse_value_blank: "skip_ws s = [] \<Longrightarrow> parse_value n s = None"
  by (subst parse_value.simps) simp

lemma strip_opening_no_fence: "96 \<notin> set s \<Longrightarrow> strip_opening_fence b s = s"
  by (induction s arbitrary: b) (auto simp: fence_jso_def)

lemma strip_closing_no_fence: "96 \<notin> set s \<Longrightarrow> strip_closing_fence s = s"
proof (induction s)
  case Nil
  show ?case by simp
next
  case (Cons c cs)
  then have "\<not> fence_at_end (c # cs)" "\<not> fence_at_end cs"
    by (auto simp: fence_at_end_def prefix_def)
  with Cons show ?case by simp
qed

lemma parse_no_fence:
  "96 \<notin> set s \<Longrightarrow> parseDeepExtraction s = JSON_parse s"
  by (simp add: parseDeepExtraction_def strip_opening_no_fence strip_closing_no_fence)

text \<open>The opening fence at the start of the text, and the closing fence at its end.\<close>

lemma strip_opening_fenced:
  "strip_opening_fence True ([96, 96, 96] @ str ''json'' @ [10] @ x) = x"
  by (simp add: fence_jso_def str_def)

lemma strip_closing_fenced:
  assumes "96 \<notin> set a" and "r = [] \<or> is_line_terminator (hd r)"
  shows "strip_closing_fence (a @ [10, 96, 96, 96] @ r) = a @ r"
  using assms(1)
proof (induction a)
  case Nil
  have "fence_at_end ([96, 96, 96] @ r)"
    using assms(2) by (cases r) (simp_all add: fence_at_end_def)
  then show ?case by simp
next
  case (Cons c cs)
  then have c: "c \<noteq> 96" and cs: "96 \<notin> set cs" by simp_all
  have "\<not> fence_at_end (cs @ [10, 96, 96, 96] @ r)"
    using cs by (cases cs) (simp_all add: fence_at_end_def)
  moreover have "\<not> fence_at_end (c # cs @ [10, 96, 96, 96] @ r)"
    using c by (simp add: fence_at_end_def)
  ultimately show ?case using Cons.IH cs by simp
qed

lemma strip_closing_after_opening:
  "strip_closing_fence ([96, 96, 96] @ str ''json'' @ 10 # x)
   = [96, 96, 96] @ str ''json'' @ strip_closing_fence (10 # x)"
  by (simp add: fence_at_end_def is_line_terminator_def str_def)

lemma parse_backquote_first: "JSON_parse (96 # s) = None"
proof -
  have "skip_ws (96 # s) = 96 # s" by (simp add: skip_ws_def is_json_ws_def)
  moreover have "\<not> starts_json_value 96"
    by (simp add: starts_json_value_def is_digit_def str_def)
  ultimately have "parse_value n (96 # s) = None" for n
    by (rule parse_value_no_start)
  then show ?thesis by (simp add: JSON_parse_def)
qed

text \<open>The replacements leave the text in place up to its first character that is not
  white space, when that character is not a backquote.\<close>

lemma strip_opening_keeps_start:
  "\<forall>w\<in>set ws. is_json_ws w \<Longrightarrow> c \<noteq> 96 \<Longrightarrow>
   \<exists>r'. strip_opening_fence b (ws @ c # r) = ws @ c # r'"
proof (induction ws arbitrary: b)
  case Nil
  then show ?case by (simp add: fence_jso_def)
next
  case (Cons w ws)
  then have "w \<noteq> 96" by (auto simp: is_json_ws_def)
  then have "\<not> prefix fence_jso (w # ws @ c # r)" by (simp add: fence_jso_def)
  moreover from Cons obtain r' where
    "strip_opening_fence (is_line_terminator w) (ws @ c # r) = ws @ c # r'"
    by (metis list.set_intros(2))
  ultimately show ?case by simp
qed

lemma strip_closing_keeps_start:
  "\<forall>w\<in>set ws. is_json_ws w \<Longrightarrow> \<not> is_json_ws c \<Longrightarrow> c \<noteq> 96 \<Longrightarrow>
   \<exists>r'. strip_closing_fence (ws @ c # r) = ws @ c # r'"
proof (induction ws)
  case Nil
  then have "c \<noteq> 10" by (auto simp: is_json_ws_def)
  moreover have "\<not> fence_at_end (c # r)" using Nil by (simp add: fence_at_end_def)
  ultimately show ?case by simp
next
  case (Cons w ws)
  then have w: "w \<noteq> 96" and ws: "\<forall>w\<in>set ws. w \<noteq> 96" by (auto simp: is_json_ws_def)
  have "\<not> fence_at_end (ws @ c # r)"
    using ws Cons.prems(3) by (cases ws) (simp_all add: fence_at_end_def)
  moreover have "\<not> fence_at_end (w # ws @ c # r)"
    using w by (simp add: fence_at_end_def)
  moreover from Cons obtain r' where "strip_closing_fence (ws @ c # r) = ws @ c # r'"
    by (metis list.set_intros(2))
  ultimately show ?case by simp
qed

lemma parse_no_start:
  assumes "skip_ws response = c # r" and "\<not> starts_json_value c" and "c \<noteq> 96"
  shows "parseDeepExtraction response = None"
proof -
  let ?ws = "takeWhile is_json_ws response"
  have sp: "response = ?ws @ c # r"
    using assms(1) by (metis skip_ws_def takeWhile_dropWhile_id)
  have ws: "\<forall>w\<in>set ?ws. is_json_ws w" by (auto dest: set_takeWhileD)
  have nc: "\<not> is_json_ws c"
    using assms(1) by (metis skip_ws_def hd_dropWhile list.sel(1) list.distinct(1))
  obtain r1 where 1: "strip_opening_fence True (?ws @ c # r) = ?ws @ c # r1"
    using strip_opening_keeps_start [OF ws assms(3)] by blast
  obtain r2 where 2: "strip_closing_fence (?ws @ c # r1) = ?ws @ c # r2"
    using strip_closing_keeps_start [OF ws nc assms(3)] by blast
  have "skip_ws (?ws @ c # r2) = c # r2"
    using ws nc by (simp add: skip_ws_def dropWhile_append3)
  then have "parse_value n (?ws @ c # r2) = None" for n
    using assms(2) by (rule parse_value_no_start)
  then have "JSON_parse (?ws @ c # r2) = None" by (simp add: JSON_parse_def)
  moreover have "parseDeepExtraction response = JSON_parse (?ws @ c # r2)"
    by (subst sp) (simp add: parseDeepExtraction_def 1 2)
  ultimately show ?thesis by simp
qed

lemma parse_blank:
  assumes "skip_ws response = []"
  shows "parseDeepExtraction response = None"
proof -
  from assms have "\<forall>c\<in>set response. is_json_ws c"
    by (simp add: skip_ws_def dropWhile_eq_Nil_conv)
  then have "96 \<notin> set response" by (auto simp: is_json_ws_def)
  then have "parseDeepExtraction response = JSON_parse response" by (rule parse_no_fence)
  also have "\<dots> = None"
    using parse_value_blank [OF assms] by (simp add: JSON_parse_def)
  finally show ?thesis .
qed

lemmas json_eval =
  parseDeepExtraction_def JSON_parse_def parse_value.simps parse_elements.simps
  parse_members.simps skip_ws_def is_json_ws_def parse_number_def is_digit_def hex_value_def
  fence_jso_def fence_at_end_def is_line_terminator_def str_def Let_def

lemma parse_empty_array: "parseDeepExtraction (str ''[]'') = Some (JArray [])"
  by (simp add: json_eval)

lemma parse_partial_object:
  "parseDeepExtraction (str ''{\"summary\": \"ok\"}'')
   = Some (JObject [(str ''summary'', JString (str ''ok''))])"
  by (simp add: json_eval)

lemma parse_valid_object:
  "JSON_parse
     (str ''{\"summary\": \"ok\", \"decisions\": [\"use rust\"], \"solutions\": [], \"learnings\": [], \"todos\": [], \"commands\": [], \"projectNotes\": \"\", \"resourceTopics\": []}'')
   = Some (JObject
       [(str ''summary'', JString (str ''ok'')),
        (str ''decisions'', JArray [JString (str ''use rust'')]),
        (str ''solutions'', JArray []), (str ''learnings'', JArray []),
        (str ''todos'', JArray []), (str ''commands'', JArray []),
        (str ''projectNotes'', JString []), (str ''resourceTopics'', JArray [])])"
  by (simp add: json_eval)

text \<open>A block whose opening fence is not marked \<open>json\<close>: the second replacement takes
  the opening fence, which ends its line, the closing fence stays, and the result is
  absent.\<close>

lemma parse_bare_fence:
  "parseDeepExtraction ([96, 96, 96] @ str ''\<newline>{\"summary\": \"ok\"}\<newline>'' @ [96, 96, 96]) = None"
  by (simp add: json_eval)

text \<open>
  C5, as amended. For every text \<open>body\<close> without a backquote, \<open>parseDeepExtraction\<close>
  gives what \<open>JSON.parse\<close> gives for \<open>body\<close>, whether the response is \<open>body\<close> as it
  stands, \<open>body\<close> between an opening fence line marked \<open>json\<close> and a closing fence line,
  or \<open>body\<close> with only one of the two; of two opening and two closing fence lines only
  one each is removed, and the result is absent. A syntax error gives absent and is
  never raised; whatever \<open>JSON.parse\<close> returns is returned as it is, with no check against
  the shape of a deep extraction, so a JSON array is returned as an array. The result is
  absent for the empty string, for a blank text, and for every response whose first
  character after white space is not a backquote and cannot start a JSON value, as
  prose.
\<close>

theorem parseDeepExtraction_returns_parsed:
  "(96 \<notin> set body \<longrightarrow>
      parseDeepExtraction body = JSON_parse body
      \<and> parseDeepExtraction ([96, 96, 96] @ str ''json'' @ [10] @ body @ [10, 96, 96, 96])
          = JSON_parse body
      \<and> parseDeepExtraction ([96, 96, 96] @ str ''json'' @ [10] @ body) = JSON_parse body
      \<and> parseDeepExtraction (body @ [10, 96, 96, 96]) = JSON_parse body
      \<and> parseDeepExtraction
            ([96, 96, 96] @ str ''json'' @ [10] @ [96, 96, 96] @ str ''json'' @ [10] @ body
             @ [10, 96, 96, 96] @ [10, 96, 96, 96]) = None)
   \<and> (skip_ws response = [] \<longrightarrow> parseDeepExtraction response = None)
   \<and> (\<forall>c r. skip_ws response = c # r \<and> \<not> starts_json_value c \<and> c \<noteq> 96 \<longrightarrow>
          parseDeepExtraction response = None)"
proof (intro conjI allI impI)
  assume b: "96 \<notin> set body"
  show "parseDeepExtraction body = JSON_parse body"
    using b by (rule parse_no_fence)
  have c: "strip_closing_fence (body @ [10, 96, 96, 96]) = body"
    using strip_closing_fenced [OF b, of "[]"] by simp
  show "parseDeepExtraction ([96, 96, 96] @ str ''json'' @ [10] @ body @ [10, 96, 96, 96])
          = JSON_parse body"
    unfolding parseDeepExtraction_def strip_opening_fenced by (simp add: c)
  show "parseDeepExtraction ([96, 96, 96] @ str ''json'' @ [10] @ body) = JSON_parse body"
    unfolding parseDeepExtraction_def strip_opening_fenced
    by (simp add: strip_closing_no_fence b)
  have o: "strip_opening_fence at_start (body @ [10, 96, 96, 96]) = body @ [10, 96, 96, 96]"
    for at_start
    using b by (induction body arbitrary: at_start) (auto simp: fence_jso_def str_def)
  show "parseDeepExtraction (body @ [10, 96, 96, 96]) = JSON_parse body"
    by (simp add: parseDeepExtraction_def o c)
  have "strip_closing_fence (10 # body @ [10, 96, 96, 96] @ [10, 96, 96, 96])
        = 10 # body @ [10, 96, 96, 96]"
    using strip_closing_fenced [of "10 # body" "[10, 96, 96, 96]"] b
    by (simp add: is_line_terminator_def)
  then have "strip_closing_fence
          ([96, 96, 96] @ str ''json'' @ 10 # body @ [10, 96, 96, 96] @ [10, 96, 96, 96])
        = [96, 96, 96] @ str ''json'' @ 10 # body @ [10, 96, 96, 96]"
    by (simp only: strip_closing_after_opening)
  then have "strip_closing_fence (strip_opening_fence True
          ([96, 96, 96] @ str ''json'' @ [10] @ [96, 96, 96] @ str ''json'' @ [10] @ body
             @ [10, 96, 96, 96] @ [10, 96, 96, 96]))
        = 96 # [96, 96] @ str ''json'' @ 10 # body @ [10, 96, 96, 96]"
    unfolding strip_opening_fenced by simp
  then show "parseDeepExtraction
            ([96, 96, 96] @ str ''json'' @ [10] @ [96, 96, 96] @ str ''json'' @ [10] @ body
             @ [10, 96, 96, 96] @ [10, 96, 96, 96]) = None"
    unfolding parseDeepExtraction_def Let_def by (simp only: parse_backquote_first)
next
  assume "skip_ws response = []"
  then show "parseDeepExtraction response = None" by (rule parse_blank)
next
  fix c r assume "skip_ws response = c # r \<and> \<not> starts_json_value c \<and> c \<noteq> 96"
  then show "parseDeepExtraction response = None"
    by (intro parse_no_start [of _ c r]) simp_all
qed

text \<open>
  The theorem at a valid object, alone and between its fences; at a line of prose, which
  starts with a letter that starts no JSON value; and at a blank text.
\<close>

theorem parseDeepExtraction_returns_parsed_witness:
  "parseDeepExtraction
     ([96, 96, 96] @ str ''json'' @ [10]
      @ str ''{\"summary\": \"ok\", \"decisions\": [\"use rust\"], \"solutions\": [], \"learnings\": [], \"todos\": [], \"commands\": [], \"projectNotes\": \"\", \"resourceTopics\": []}''
      @ [10, 96, 96, 96])
   = Some (JObject
       [(str ''summary'', JString (str ''ok'')),
        (str ''decisions'', JArray [JString (str ''use rust'')]),
        (str ''solutions'', JArray []), (str ''learnings'', JArray []),
        (str ''todos'', JArray []), (str ''commands'', JArray []),
        (str ''projectNotes'', JString []), (str ''resourceTopics'', JArray [])])
   \<and> parseDeepExtraction
       (str ''{\"summary\": \"ok\", \"decisions\": [\"use rust\"], \"solutions\": [], \"learnings\": [], \"todos\": [], \"commands\": [], \"projectNotes\": \"\", \"resourceTopics\": []}'')
     = Some (JObject
       [(str ''summary'', JString (str ''ok'')),
        (str ''decisions'', JArray [JString (str ''use rust'')]),
        (str ''solutions'', JArray []), (str ''learnings'', JArray []),
        (str ''todos'', JArray []), (str ''commands'', JArray []),
        (str ''projectNotes'', JString []), (str ''resourceTopics'', JArray [])])
   \<and> parseDeepExtraction (str ''Sorry, nothing to extract.'') = None
   \<and> parseDeepExtraction (str '' \<newline> '') = None
   \<and> parseDeepExtraction [] = None"
proof -
  let ?o = "str ''{\"summary\": \"ok\", \"decisions\": [\"use rust\"], \"solutions\": [], \"learnings\": [], \"todos\": [], \"commands\": [], \"projectNotes\": \"\", \"resourceTopics\": []}''"
  let ?s = "str ''Sorry, nothing to extract.''"
  let ?b = "str '' \<newline> ''"
  note t = parseDeepExtraction_returns_parsed
  have nb: "96 \<notin> set ?o" by (simp add: str_def)
  from t [of ?o "[]"] have "96 \<notin> set ?o \<longrightarrow>
      parseDeepExtraction ?o = JSON_parse ?o
      \<and> parseDeepExtraction ([96, 96, 96] @ str ''json'' @ [10] @ ?o @ [10, 96, 96, 96])
          = JSON_parse ?o
      \<and> parseDeepExtraction ([96, 96, 96] @ str ''json'' @ [10] @ ?o) = JSON_parse ?o
      \<and> parseDeepExtraction (?o @ [10, 96, 96, 96]) = JSON_parse ?o
      \<and> parseDeepExtraction
            ([96, 96, 96] @ str ''json'' @ [10] @ [96, 96, 96] @ str ''json'' @ [10] @ ?o
             @ [10, 96, 96, 96] @ [10, 96, 96, 96]) = None"
    by (rule conjunct1)
  with nb have f: "parseDeepExtraction ?o = JSON_parse ?o"
    "parseDeepExtraction ([96, 96, 96] @ str ''json'' @ [10] @ ?o @ [10, 96, 96, 96])
          = JSON_parse ?o"
    by blast+
  have 1: "parseDeepExtraction ([96, 96, 96] @ str ''json'' @ [10] @ ?o @ [10, 96, 96, 96])
      = Some (JObject
       [(str ''summary'', JString (str ''ok'')),
        (str ''decisions'', JArray [JString (str ''use rust'')]),
        (str ''solutions'', JArray []), (str ''learnings'', JArray []),
        (str ''todos'', JArray []), (str ''commands'', JArray []),
        (str ''projectNotes'', JString []), (str ''resourceTopics'', JArray [])])"
    unfolding f(2) by (rule parse_valid_object)
  have 2: "parseDeepExtraction ?o
      = Some (JObject
       [(str ''summary'', JString (str ''ok'')),
        (str ''decisions'', JArray [JString (str ''use rust'')]),
        (str ''solutions'', JArray []), (str ''learnings'', JArray []),
        (str ''todos'', JArray []), (str ''commands'', JArray []),
        (str ''projectNotes'', JString []), (str ''resourceTopics'', JArray [])])"
    unfolding f(1) by (rule parse_valid_object)
  have "skip_ws ?s = 83 # str ''orry, nothing to extract.'' \<and> \<not> starts_json_value 83 \<and> 83 \<noteq> (96::nat)"
    by (simp add: skip_ws_def is_json_ws_def starts_json_value_def is_digit_def str_def)
  moreover from t [of "[]" ?s]
  have "\<forall>c r. skip_ws ?s = c # r \<and> \<not> starts_json_value c \<and> c \<noteq> 96 \<longrightarrow>
          parseDeepExtraction ?s = None"
    by (elim conjE)
  ultimately have 3: "parseDeepExtraction ?s = None" by blast
  have "skip_ws ?b = []"
    by (simp add: skip_ws_def is_json_ws_def str_def)
  moreover from t [of "[]" ?b]
  have "skip_ws ?b = [] \<longrightarrow> parseDeepExtraction ?b = None"
    by (elim conjE)
  ultimately have 4: "parseDeepExtraction ?b = None" by (rule rev_mp)
  have "skip_ws [] = []" by (simp add: skip_ws_def)
  moreover from t [of "[]" "[]"]
  have "skip_ws [] = [] \<longrightarrow> parseDeepExtraction [] = None"
    by (elim conjE)
  ultimately have 5: "parseDeepExtraction [] = None" by (rule rev_mp)
  from 1 2 3 4 5 show ?thesis by (intro conjI)
qed

text \<open>
  C5 as stated fails. For a JSON array the result is not absent: the array is returned.
  And a fenced \<open>json\<close> block around a valid object does not always give the record: with
  the object whose one string is three backquotes and a line separator (U+2028), which
  \<open>JSON.parse\<close> accepts, the second replacement takes the backquotes of the string, and
  the result is absent.
\<close>

theorem parseDeepExtraction_returns_parsed_counterexample:
  "parseDeepExtraction (str ''[1, 2]'') = Some (JArray [JNumber (str ''1''), JNumber (str ''2'')])
   \<and> JSON_parse (str ''{\"a\": \"'' @ [96, 96, 96, 8232] @ str ''\"}'')
       = Some (JObject [(str ''a'', JString [96, 96, 96, 8232])])
   \<and> parseDeepExtraction
        ([96, 96, 96] @ str ''json'' @ [10]
         @ str ''{\"a\": \"'' @ [96, 96, 96, 8232] @ str ''\"}'' @ [10, 96, 96, 96]) = None"
  by (simp add: json_eval)

section \<open>C6: the header of \<open>appendToSection\<close> is matched by prefix\<close>

text \<open>
  C6, as amended. \<open>appendToSection(name, line, D)\<close> selects the first line of the note that
  starts with the header text \<open>## name\<close>; the line need not be equal to it. When the first
  such line is \<open>## name\<close> followed by any further text \<open>ext\<close> (as \<open>## Decisions Log\<close> for
  the name \<open>Decisions\<close>), the new line is inserted under that line, after the blank and
  comment lines that follow it, and the note changes.
\<close>

theorem appendToSection_extended_header:
  assumes "daily_dir v (dailyPath d) = Some c"
    and "split_nl c = pre @ (str ''## '' @ name @ ext) # post"
    and "\<forall>l\<in>set pre. \<not> prefix (str ''## '' @ name) l"
  shows "appendToSection v name L d =
           Inr (writeFileSync v (dailyPath d)
                  (join_nl (pre @ (str ''## '' @ name @ ext) # takeWhile skippable post
                            @ L # dropWhile skippable post)))
         \<and> join_nl (pre @ (str ''## '' @ name @ ext) # takeWhile skippable post
                    @ L # dropWhile skippable post) \<noteq> c"
proof -
  let ?h = "str ''## '' @ name"
  have p: "prefix ?h (?h @ ext)" by simp
  have fi: "find_insert ?h (split_nl c) = Some (Suc (length pre + skip_count ?h post))"
    using find_insert_Some [OF assms(3) p] assms(2) by simp
  have eq: "appendToSection v name L d =
      Inr (writeFileSync v (dailyPath d)
            (join_nl (pre @ (?h @ ext) # takeWhile skippable post @ L # dropWhile skippable post)))"
    using appendToSection_existing [OF assms(1), of name L] fi assms(2) splice_found [of pre ?h post L "?h @ ext"]
    by simp
  have "length (join_nl ((pre @ (?h @ ext) # takeWhile skippable post) @ L # dropWhile skippable post))
        = length (join_nl ((pre @ (?h @ ext) # takeWhile skippable post) @ dropWhile skippable post)) + length L + 1"
    by (rule length_join_nl_insert) simp
  then have "length (join_nl (pre @ (?h @ ext) # takeWhile skippable post @ L # dropWhile skippable post))
        = length (join_nl (pre @ (?h @ ext) # takeWhile skippable post @ dropWhile skippable post)) + length L + 1"
    by simp
  also have "join_nl (pre @ (?h @ ext) # takeWhile skippable post @ dropWhile skippable post) = c"
    using assms(2) join_split_nl [of c] by simp
  finally have "join_nl (pre @ (?h @ ext) # takeWhile skippable post @ L # dropWhile skippable post) \<noteq> c"
    by auto
  with eq show ?thesis by simp
qed

text \<open>The theorem at a note whose only header for \<open>Decisions\<close> is \<open>## Decisions Log\<close>.\<close>

theorem appendToSection_extended_header_witness:
  "appendToSection (vault_of [(dailyPath 0, str ''# Day\<newline>## Decisions Log\<newline>\<newline>old'')] None)
     (str ''Decisions'') (str ''- x'') 0
   = Inr (writeFileSync (vault_of [(dailyPath 0, str ''# Day\<newline>## Decisions Log\<newline>\<newline>old'')] None)
            (dailyPath 0) (str ''# Day\<newline>## Decisions Log\<newline>\<newline>- x\<newline>old''))"
proof -
  let ?v = "vault_of [(dailyPath 0, str ''# Day\<newline>## Decisions Log\<newline>\<newline>old'')] None"
  have a: "daily_dir ?v (dailyPath 0) = Some (str ''# Day\<newline>## Decisions Log\<newline>\<newline>old'')"
    by (simp add: vault_of_def)
  have b: "split_nl (str ''# Day\<newline>## Decisions Log\<newline>\<newline>old'')
           = [str ''# Day''] @ (str ''## '' @ str ''Decisions'' @ str '' Log'') # [[], str ''old'']"
    by (simp add: str_def)
  have c: "\<forall>l\<in>set [str ''# Day'']. \<not> prefix (str ''## '' @ str ''Decisions'') l"
    by (simp add: str_def)
  show ?thesis
    using appendToSection_extended_header [OF a b c, of "str ''- x''"]
    by (simp add: str_def skippable_def trim_def is_space_def)
qed

text \<open>
  C6 as stated fails: with \<open>## Decisions Log\<close> as the only candidate header, the call for
  \<open>Decisions\<close> is not the no-op of an absent header.
\<close>

theorem appendToSection_extended_header_counterexample:
  "appendToSection (vault_of [(dailyPath 0, str ''## Decisions Log\<newline>old'')] None)
     (str ''Decisions'') (str ''- x'') 0
   \<noteq> Inr (vault_of [(dailyPath 0, str ''## Decisions Log\<newline>old'')] None)"
proof -
  let ?v = "vault_of [(dailyPath 0, str ''## Decisions Log\<newline>old'')] None"
  have a: "daily_dir ?v (dailyPath 0) = Some (str ''## Decisions Log\<newline>old'')"
    by (simp add: vault_of_def)
  have "appendToSection ?v (str ''Decisions'') (str ''- x'') 0
        = (case find_insert (str ''## '' @ str ''Decisions'') (split_nl (str ''## Decisions Log\<newline>old'')) of
             None \<Rightarrow> Inr ?v
           | Some i \<Rightarrow> Inr (writeFileSync ?v (dailyPath 0)
                 (join_nl (splice_in i (str ''- x'') (split_nl (str ''## Decisions Log\<newline>old''))))))"
    by (rule appendToSection_existing [OF a])
  also have "\<dots> = Inr (writeFileSync ?v (dailyPath 0) (str ''## Decisions Log\<newline>- x\<newline>old''))"
    by (simp add: str_def splice_in_def trim_def is_space_def)
  finally have "appendToSection ?v (str ''Decisions'') (str ''- x'') 0
        = Inr (writeFileSync ?v (dailyPath 0) (str ''## Decisions Log\<newline>- x\<newline>old''))" .
  moreover have "writeFileSync ?v (dailyPath 0) (str ''## Decisions Log\<newline>- x\<newline>old'') \<noteq> ?v"
  proof
    assume "writeFileSync ?v (dailyPath 0) (str ''## Decisions Log\<newline>- x\<newline>old'') = ?v"
    then have "daily_dir (writeFileSync ?v (dailyPath 0) (str ''## Decisions Log\<newline>- x\<newline>old'')) (dailyPath 0)
               = daily_dir ?v (dailyPath 0)" by simp
    then show False by (simp add: vault_of_def str_def)
  qed
  ultimately show ?thesis by simp
qed

section \<open>C7: the decisions of the light extraction\<close>

lemma decisions_scan_line:
  "decisions (scan_line r result line)
   = decisions result @ (if is_decision_line line then [trim line] else [])"
  by (auto simp: scan_line_def is_decision_line_def Let_def)

lemma decisions_scan_lines:
  "decisions (foldl (scan_line r) result ls)
   = decisions result @ map trim (filter is_decision_line ls)"
  by (induction ls arbitrary: result) (simp_all add: decisions_scan_line)

lemma decisions_scan_entry:
  "decisions (scan_entry result entry)
   = decisions result @ map trim (filter is_decision_line (entry_lines entry))"
  by (cases "entry_message entry")
     (simp_all add: scan_entry_def entry_lines_def decisions_scan_lines)

lemma decisions_scan_entries:
  "decisions (foldl scan_entry result entries)
   = decisions result @ map trim (filter is_decision_line (conversation_lines entries))"
  by (induction entries arbitrary: result)
     (simp_all add: decisions_scan_entry conversation_lines_def)

lemma decisions_lightExtract:
  "decisions (lightExtract entries detected)
   = take 5 (dedupe (map trim (filter is_decision_line (conversation_lines entries))))"
  by (simp add: lightExtract_def Let_def decisions_scan_entries)

text \<open>
  C7, as amended. The decisions that \<open>lightExtract\<close> returns are the first five distinct
  trimmed texts of the conversation lines that hold a decision marker and whose length
  lies strictly between 15 and 300, that is in the interval [16, 300): a marker-bearing
  line of 15 characters is not a decision, one of 16 characters is, and one of 300
  characters is not.
\<close>

theorem lightExtract_decisions:
  "decisions (lightExtract entries detected)
   = take 5 (dedupe (map trim (filter is_decision_line (conversation_lines entries))))
   \<and> (\<forall>line. is_decision_line line
               \<longleftrightarrow> test_words decision_rx line \<and> 16 \<le> length line \<and> length line < 300)"
proof
  show "decisions (lightExtract entries detected)
        = take 5 (dedupe (map trim (filter is_decision_line (conversation_lines entries))))"
    by (rule decisions_lightExtract)
  show "\<forall>line. is_decision_line line
               \<longleftrightarrow> test_words decision_rx line \<and> 16 \<le> length line \<and> length line < 300"
    by (auto simp: is_decision_line_def)
qed

lemma decision_rx_words:
  "decision_rx = map (map Lit \<circ> str)
     [''decided'', ''going with'', ''let's go with'', ''let's use'', ''let's do'',
      ''we'll use'', ''we'll go'', ''we will use'', ''we will go'']"
  by (simp add: decision_rx_def alt_def seq_def lit_def str_def)

lemma decided_15: "test_words decision_rx (str ''we decided on X'')"
  by code_simp

lemma decided_16: "test_words decision_rx (str ''we decided on XY'')"
  by code_simp

text \<open>The theorem at a conversation of one message with two marker-bearing lines, of 15
  and of 16 characters.\<close>

theorem lightExtract_decisions_witness:
  "decisions (lightExtract [user_message (str ''we decided on X\<newline>we decided on XY'')] None)
   = [str ''we decided on XY'']"
proof -
  let ?e = "[user_message (str ''we decided on X\<newline>we decided on XY'')]"
  have l: "conversation_lines ?e = [str ''we decided on X'', str ''we decided on XY'']"
    by (simp add: conversation_lines_def entry_lines_def user_message_def str_def)
  have a: "\<not> is_decision_line (str ''we decided on X'')"
    by (simp add: is_decision_line_def str_def)
  have b: "is_decision_line (str ''we decided on XY'')"
    using decided_16 by (simp add: is_decision_line_def str_def)
  have t: "trim (str ''we decided on XY'') = str ''we decided on XY''"
    by (simp add: trim_def str_def is_space_def)
  from lightExtract_decisions [of ?e None]
  have "decisions (lightExtract ?e None)
        = take 5 (dedupe (map trim (filter is_decision_line (conversation_lines ?e))))"
    by (rule conjunct1)
  then show ?thesis unfolding l by (simp add: a b t dedupe_def)
qed

text \<open>
  C7 as stated fails at its own example: a line of exactly 15 characters that holds the
  marker \<open>decided\<close> is not among the decisions.
\<close>

theorem lightExtract_decisions_counterexample:
  "test_words decision_rx (str ''we decided on X'')
   \<and> length (str ''we decided on X'') = 15
   \<and> decisions (lightExtract [user_message (str ''we decided on X'')] None) = []"
proof -
  have l: "conversation_lines [user_message (str ''we decided on X'')] = [str ''we decided on X'']"
    by (simp add: conversation_lines_def entry_lines_def user_message_def str_def)
  have a: "\<not> is_decision_line (str ''we decided on X'')"
    by (simp add: is_decision_line_def str_def)
  have "decisions (lightExtract [user_message (str ''we decided on X'')] None) = []"
    unfolding decisions_lightExtract l by (simp add: a dedupe_def)
  with decided_15 show ?thesis by (simp add: str_def)
qed

section \<open>C8: writing the light extraction\<close>




section \<open>C9: appending creates the note\<close>

text \<open>
  C9. When no daily note exists for the date \<open>d\<close>, \<open>appendToSection(name, line, d)\<close> and
  \<open>appendToLog(text, d)\<close> first create the note and then insert into it: each call equals
  the same call on the vault in which the note has been created. So both end with a note
  for \<open>d\<close> in the vault, and an \<open>appendToSection\<close> whose header no line of the new note
  starts with, a no-op as an insertion, still leaves the new note behind. The note that
  is created is the one of the full life cycle: for a template whose braces all belong
  to placeholders, or for the built-in skeleton when no template is installed, it is the
  text of the template with every \<open>{{DATE}}\<close>, \<open>{{DAY_NAME}}\<close> and \<open>{{FULL_DATE}}\<close>
  replaced by its value for \<open>d\<close>, and with the incomplete priorities of yesterday's note,
  when they hold no dollar sign, each marked as rolled over on a line of its own, put in
  before the first empty placeholder line.
\<close>

theorem append_creates_note:
  assumes "daily_dir v (dailyPath d) = None"
  shows "\<exists>created.
         ensureDailyNote v d = Inr (dailyPath d, writeFileSync v (dailyPath d) created)
       \<and> appendToSection v name line d
           = appendToSection (writeFileSync v (dailyPath d) created) name line d
       \<and> appendToLog v now entry d
           = appendToLog (writeFileSync v (dailyPath d) created) now entry d
       \<and> (\<exists>v'. appendToSection v name line d = Inr v' \<and> daily_dir v' (dailyPath d) \<noteq> None)
       \<and> (\<exists>v'. appendToLog v now entry d = Inr v' \<and> daily_dir v' (dailyPath d) \<noteq> None)
       \<and> ((\<forall>l\<in>set (split_nl created). \<not> prefix (str ''## '' @ name) l) \<longrightarrow>
            appendToSection v name line d = Inr (writeFileSync v (dailyPath d) created))
       \<and> (\<forall>ps. (case daily_template v of
                    None \<Rightarrow> ps = builtin_template
                  | Some t \<Rightarrow> t = template_text ps \<and> (\<forall>p\<in>set ps. plain p))
                \<and> (\<forall>x\<in>set (rolled_items v d). 36 \<notin> set x) \<longrightarrow>
                created = new_note d ps (rolled_items v d))"
proof -
  let ?p = "dailyPath d"
  let ?c = "lifecycle_content v d"
  let ?w = "writeFileSync v ?p ?c"
  have w: "daily_dir ?w ?p = Some ?c" by simp
  have 1: "ensureDailyNote v d = Inr (?p, ?w)"
    using assms by (rule ensureDailyNote_fresh)
  have 2: "appendToSection v name line d = appendToSection ?w name line d"
    using assms by (rule appendToSection_fresh)
  have 3: "appendToLog v now entry d = appendToLog ?w now entry d"
    using assms by (rule appendToLog_fresh)
  have 4: "\<exists>v'. appendToSection v name line d = Inr v' \<and> daily_dir v' ?p \<noteq> None"
    unfolding 2 appendToSection_existing [OF w]
    by (cases "find_insert (str ''## '' @ name) (split_nl ?c)") simp_all
  have 5: "\<exists>v'. appendToLog v now entry d = Inr v' \<and> daily_dir v' ?p \<noteq> None"
    unfolding 3 appendToLog_existing [OF w]
    by (cases "find_insert (str ''## Log'') (split_nl ?c)") simp_all
  have 6: "(\<forall>l\<in>set (split_nl ?c). \<not> prefix (str ''## '' @ name) l) \<longrightarrow>
           appendToSection v name line d = Inr ?w"
  proof
    assume "\<forall>l\<in>set (split_nl ?c). \<not> prefix (str ''## '' @ name) l"
    then have "find_insert (str ''## '' @ name) (split_nl ?c) = None"
      by (simp add: find_insert_None)
    then show "appendToSection v name line d = Inr ?w"
      unfolding 2 appendToSection_existing [OF w] by simp
  qed
  have 7: "\<forall>ps. (case daily_template v of
                    None \<Rightarrow> ps = builtin_template
                  | Some t \<Rightarrow> t = template_text ps \<and> (\<forall>p\<in>set ps. plain p))
                \<and> (\<forall>x\<in>set (rolled_items v d). 36 \<notin> set x) \<longrightarrow>
                ?c = new_note d ps (rolled_items v d)"
    by (intro allI impI lifecycle_new_note) simp_all
  show ?thesis
    by (rule exI [of _ ?c]) (intro conjI 1 2 3 4 5 6 7)
qed

text \<open>
  The theorem on 2 January 1970, with a template that holds the three placeholders and a
  note of the day before that has one incomplete and one completed priority: an append
  to a section that the template does not have leaves the new note behind, made from the
  template, with the incomplete priority rolled over; and an append to the log writes
  its entry into that note.
\<close>

theorem append_creates_note_witness:
  "appendToSection
     (vault_of [(dailyPath 0, str ''## Priorities\<newline>- [ ] write tests\<newline>- [x] ship it\<newline>'')]
        (Some (str ''# {{DAY_NAME}}, {{FULL_DATE}}\<newline>date: {{DATE}}\<newline>## Priorities\<newline>- [ ] \<newline>## Log\<newline>'')))
     (str ''Ideas'') (str ''- x'') 1
   = Inr (writeFileSync
            (vault_of [(dailyPath 0, str ''## Priorities\<newline>- [ ] write tests\<newline>- [x] ship it\<newline>'')]
               (Some (str ''# {{DAY_NAME}}, {{FULL_DATE}}\<newline>date: {{DATE}}\<newline>## Priorities\<newline>- [ ] \<newline>## Log\<newline>'')))
            (dailyPath 1)
            (str ''# Friday, January 2, 1970\<newline>date: 1970-01-02\<newline>## Priorities\<newline>- [ ] write tests *(rolled over)*\<newline>- [ ] \<newline>## Log\<newline>''))
   \<and> appendToLog
       (vault_of [(dailyPath 0, str ''## Priorities\<newline>- [ ] write tests\<newline>- [x] ship it\<newline>'')]
          (Some (str ''# {{DAY_NAME}}, {{FULL_DATE}}\<newline>date: {{DATE}}\<newline>## Priorities\<newline>- [ ] \<newline>## Log\<newline>'')))
       \<lparr>getHours = 9, getMinutes = 5\<rparr> (str ''hi'') 1
     = Inr (writeFileSync
              (vault_of [(dailyPath 0, str ''## Priorities\<newline>- [ ] write tests\<newline>- [x] ship it\<newline>'')]
                 (Some (str ''# {{DAY_NAME}}, {{FULL_DATE}}\<newline>date: {{DATE}}\<newline>## Priorities\<newline>- [ ] \<newline>## Log\<newline>'')))
              (dailyPath 1)
              (str ''# Friday, January 2, 1970\<newline>date: 1970-01-02\<newline>## Priorities\<newline>- [ ] write tests *(rolled over)*\<newline>- [ ] \<newline>## Log\<newline>\<newline>- 09:05 ''
               @ [226, 8364, 8221] @ str '' hi''))"
proof -
  let ?y = "str ''## Priorities\<newline>- [ ] write tests\<newline>- [x] ship it\<newline>''"
  let ?t = "str ''# {{DAY_NAME}}, {{FULL_DATE}}\<newline>date: {{DATE}}\<newline>## Priorities\<newline>- [ ] \<newline>## Log\<newline>''"
  let ?v = "vault_of [(dailyPath 0, ?y)] (Some ?t)"
  let ?ps = "[Text (str ''# ''), Day_Name, Text (str '', ''), Full_Date, Text (str ''\<newline>date: ''),
              Date, Text (str ''\<newline>## Priorities\<newline>- [ ] \<newline>## Log\<newline>'')]"
  let ?n = "str ''# Friday, January 2, 1970\<newline>date: 1970-01-02\<newline>## Priorities\<newline>- [ ] write tests *(rolled over)*\<newline>- [ ] \<newline>## Log\<newline>''"
  let ?now = "\<lparr>getHours = 9, getMinutes = 5\<rparr>"
  have a: "daily_dir ?v (dailyPath 1) = None"
    using day_one_path by (simp add: vault_of_def)
  from append_creates_note [OF a, of "str ''Ideas''" "str ''- x''" ?now "str ''hi''"]
  obtain created where
    lg: "appendToLog ?v ?now (str ''hi'') 1
         = appendToLog (writeFileSync ?v (dailyPath 1) created) ?now (str ''hi'') 1"
    and noop: "(\<forall>l\<in>set (split_nl created). \<not> prefix (str ''## '' @ str ''Ideas'') l) \<longrightarrow>
            appendToSection ?v (str ''Ideas'') (str ''- x'') 1
              = Inr (writeFileSync ?v (dailyPath 1) created)"
    and pin: "\<forall>ps. (case daily_template ?v of
                    None \<Rightarrow> ps = builtin_template
                  | Some t \<Rightarrow> t = template_text ps \<and> (\<forall>p\<in>set ps. plain p))
                \<and> (\<forall>x\<in>set (rolled_items ?v 1). 36 \<notin> set x) \<longrightarrow>
                created = new_note 1 ps (rolled_items ?v 1)"
    by (elim exE conjE) (rule that; assumption)
  have tp: "case daily_template ?v of
              None \<Rightarrow> ?ps = builtin_template
            | Some t \<Rightarrow> t = template_text ?ps \<and> (\<forall>p\<in>set ?ps. plain p)"
    by (simp add: vault_of_def template_text_def str_def)
  have ri: "rolled_items ?v 1 = [str ''write tests'']"
    by (simp add: rolled_items_def vault_of_def scanned_lines_def is_priorities_header_def
        ends_priorities_def incomplete_of_line_def checklist_eval str_def)
  have nd: "\<forall>x\<in>set (rolled_items ?v 1). 36 \<notin> set x"
    unfolding ri by (simp add: str_def)
  from pin tp nd have "created = new_note 1 ?ps (rolled_items ?v 1)" by blast
  also have "\<dots> = ?n"
    unfolding ri
    by (simp add: new_note_def note_text_def terminated_def rolled_line_def placeholder_def
        date_eval civil_day_one str_def)
  finally have c: "created = ?n" .
  have "\<forall>l\<in>set (split_nl ?n). \<not> prefix (str ''## '' @ str ''Ideas'') l"
    by (simp add: str_def)
  with noop have 1: "appendToSection ?v (str ''Ideas'') (str ''- x'') 1
      = Inr (writeFileSync ?v (dailyPath 1) ?n)"
    unfolding c by (rule mp)
  have e: "logEntry ?now x = [45, 32, 48, 57, 58, 48, 53, 32, 226, 8364, 8221, 32] @ x" for x
    by (simp add: logEntry_def pad_two_digits str_def)
  have w: "daily_dir (writeFileSync ?v (dailyPath 1) ?n) (dailyPath 1) = Some ?n" by simp
  have 2: "appendToLog ?v ?now (str ''hi'') 1
      = Inr (writeFileSync ?v (dailyPath 1)
               (str ''# Friday, January 2, 1970\<newline>date: 1970-01-02\<newline>## Priorities\<newline>- [ ] write tests *(rolled over)*\<newline>- [ ] \<newline>## Log\<newline>\<newline>- 09:05 ''
                @ [226, 8364, 8221] @ str '' hi''))"
    unfolding lg c appendToLog_existing [OF w] e
    by (simp add: str_def splice_in_def trim_def is_space_def)
  from 1 2 show ?thesis by (intro conjI)
qed

section \<open>C10: where the rolled-over items go\<close>

text \<open>
  C10. When \<open>ensure\<close> creates the note of a day and yesterday's note has incomplete
  priorities, the rolled-over lines, followed by a line feed and the placeholder, take
  the place of the first occurrence of the placeholder \<open>- [ ] \<close> with its line feed in the
  instantiated template text (or the skeleton), wherever it stands: all the text \<open>pre\<close>
  before that occurrence and all the text \<open>post\<close> after it are kept, and nothing asks
  whether \<open>pre\<close> ends inside the Priorities section. The replacement is expanded as a
  replacement string; when no rolled-over item holds a dollar sign it is inserted as it
  is.
\<close>

theorem rollover_at_first_placeholder:
  assumes "daily_dir v (dailyPath d) = None"
    and "daily_dir v (dailyPath (d - 1)) = Some y"
    and "extractIncompletePriorities y \<noteq> []"
    and "(case daily_template v of Some t \<Rightarrow> instantiate t d | None \<Rightarrow> skeleton d)
         = pre @ placeholder @ post"
    and "\<forall>j<length pre. \<not> prefix placeholder (drop j (pre @ placeholder @ post))"
  shows "ensureDailyNote v d =
           Inr (dailyPath d, writeFileSync v (dailyPath d)
                  (pre @ get_substitution placeholder pre post
                           (join_nl (map rolled_line (extractIncompletePriorities y))
                            @ str ''\<newline>- [ ] \<newline>'') @ post))
       \<and> ((\<forall>p\<in>set (extractIncompletePriorities y). 36 \<notin> set p) \<longrightarrow>
            ensureDailyNote v d =
              Inr (dailyPath d, writeFileSync v (dailyPath d)
                     (pre @ join_nl (map rolled_line (extractIncompletePriorities y))
                      @ str ''\<newline>- [ ] \<newline>'' @ post)))"
proof -
  let ?items = "extractIncompletePriorities y"
  let ?rep = "join_nl (map rolled_line ?items) @ str ''\<newline>- [ ] \<newline>''"
  have 1: "ensureDailyNote v d =
           Inr (dailyPath d, writeFileSync v (dailyPath d)
                  (pre @ get_substitution placeholder pre post ?rep @ post))"
    using ensureDailyNote_rollover [OF assms(1,2)] rollover_at [OF assms(3,5)]
    by (simp add: assms(4))
  have 2: "ensureDailyNote v d =
              Inr (dailyPath d, writeFileSync v (dailyPath d) (pre @ ?rep @ post))"
    if "\<forall>p\<in>set ?items. 36 \<notin> set p"
    using 1 get_substitution_plain [OF rolled_no_dollar [OF that]] by simp
  from 1 2 show ?thesis by simp
qed

text \<open>
  The theorem with a template whose first placeholder stands under \<open>## Inbox\<close>, before the
  Priorities section: the item of yesterday is rolled over into the Inbox.
\<close>

theorem rollover_at_first_placeholder_witness:
  "ensureDailyNote
     (vault_of [(dailyPath 0, str ''## Priorities\<newline>- [ ] buy milk\<newline>- [x] done thing\<newline>'')]
        (Some (str ''## Inbox\<newline>- [ ] \<newline>## Priorities\<newline>- [ ] \<newline>## Log\<newline>''))) 1
   = Inr (dailyPath 1,
          writeFileSync
            (vault_of [(dailyPath 0, str ''## Priorities\<newline>- [ ] buy milk\<newline>- [x] done thing\<newline>'')]
               (Some (str ''## Inbox\<newline>- [ ] \<newline>## Priorities\<newline>- [ ] \<newline>## Log\<newline>'')))
            (dailyPath 1)
            (str ''## Inbox\<newline>- [ ] buy milk *(rolled over)*\<newline>- [ ] \<newline>## Priorities\<newline>- [ ] \<newline>## Log\<newline>''))"
proof -
  let ?y = "str ''## Priorities\<newline>- [ ] buy milk\<newline>- [x] done thing\<newline>''"
  let ?t = "str ''## Inbox\<newline>- [ ] \<newline>## Priorities\<newline>- [ ] \<newline>## Log\<newline>''"
  let ?v = "vault_of [(dailyPath 0, ?y)] (Some ?t)"
  let ?pre = "str ''## Inbox\<newline>''"
  let ?post = "str ''## Priorities\<newline>- [ ] \<newline>## Log\<newline>''"
  note ne = day_one_path
  have a: "daily_dir ?v (dailyPath 1) = None"
    using ne by (simp add: vault_of_def)
  have b: "daily_dir ?v (dailyPath (1 - 1)) = Some ?y"
    by (simp add: vault_of_def)
  have items: "extractIncompletePriorities ?y = [str ''buy milk'']"
    by (simp add: extractIncompletePriorities_def checklist_eval str_def)
  have c: "extractIncompletePriorities ?y \<noteq> []"
    unfolding items by simp
  have "instantiate ?t 1 = ?t"
    by (rule instantiate_plain) (simp add: str_def)
  then have t: "(case daily_template ?v of Some t \<Rightarrow> instantiate t 1 | None \<Rightarrow> skeleton 1)
        = ?pre @ placeholder @ ?post"
    by (simp add: vault_of_def placeholder_def str_def)
  have f: "\<forall>j<length ?pre. \<not> prefix placeholder (drop j (?pre @ placeholder @ ?post))"
    by (simp add: str_def placeholder_def less_Suc_eq)
  have n: "\<forall>p\<in>set (extractIncompletePriorities ?y). 36 \<notin> set p"
    unfolding items by (simp add: str_def)
  from rollover_at_first_placeholder [OF a b c t f] n
  have "ensureDailyNote ?v 1 =
              Inr (dailyPath 1, writeFileSync ?v (dailyPath 1)
                     (?pre @ join_nl (map rolled_line (extractIncompletePriorities ?y))
                      @ str ''\<newline>- [ ] \<newline>'' @ ?post))"
    by (elim conjE impE) assumption
  then show ?thesis
    unfolding items by (simp add: rolled_line_def str_def)
qed

end
